theory Spec2Isabelle
  imports Complex_Main "HOL-Library.Sublist"
begin

section \<open>JavaScript values\<close>

text \<open>
  A JavaScript string is a sequence of UTF-16 code units; a code unit is modelled by its
  number. The regular expressions of the scraper carry no \<open>u\<close> flag, so they match code
  unit by code unit, and the range U+0590 to U+05FF in the class of the hashtag
  pattern is a range of code units. \<open>ascii\<close> writes an ASCII literal as such a string.
\<close>

type_synonym jsstring = "nat list"

definition ascii :: "string \<Rightarrow> jsstring" where
  "ascii s = map of_char s"

text \<open>
  A JavaScript number is an IEEE-754 double: \<open>Fin r\<close> for a finite one, with its exact
  value \<open>r\<close>, the two infinities, or \<open>NaN\<close>. The two zeros are not told apart: they are
  equal under every comparison, and both are falsy.
\<close>

datatype jsnum = NaN | Fin rat | PosInf | NegInf

definition pow2 :: "int \<Rightarrow> rat" where
  "pow2 q = (if q < 0 then 1 / 2 ^ nat (- q) else 2 ^ nat q)"

text \<open>
  The binary exponent of \<open>a > 0\<close>: the \<open>e\<close> with \<open>2 ^ e \<le> a < 2 ^ (e + 1)\<close>, found by
  halving or doubling, and cut off at 1024 and at -1075, beyond which no double lies.
\<close>

function exponentUp :: "rat \<Rightarrow> int \<Rightarrow> int" where
  "exponentUp a e = (if a < 2 \<or> 1024 \<le> e then e else exponentUp (a / 2) (e + 1))"
  by pat_completeness auto
termination
  by (relation "measure (\<lambda>(a, e). nat (1024 - e))") auto

function exponentDown :: "rat \<Rightarrow> int \<Rightarrow> int" where
  "exponentDown a e = (if 1 \<le> a \<or> e \<le> - 1075 then e else exponentDown (a * 2) (e - 1))"
  by pat_completeness auto
termination
  by (relation "measure (\<lambda>(a, e). nat (e + 1075))") auto

definition binaryExponent :: "rat \<Rightarrow> int" where
  "binaryExponent a = (if 1 \<le> a then exponentUp a 0 else exponentDown a 0)"

text \<open>The nearest integer to \<open>m \<ge> 0\<close>, the even one when two are equally near.\<close>

definition roundHalfEven :: "rat \<Rightarrow> int" where
  "roundHalfEven m =
     (let f = \<lfloor>m\<rfloor>; d = m - of_int f
      in if d < 1 / 2 then f else if 1 / 2 < d then f + 1 else if even f then f else f + 1)"

text \<open>
  The double nearest to a rational, ties to the even significand (the rounding of
  every arithmetic operation and of every conversion from text): 53 significant
  bits, exponents from -1022 (below it the spacing stays \<open>2 ^ -1074\<close>, so that tiny
  values round to 0), and an infinity from \<open>2 ^ 1024\<close> on.
\<close>

definition toDouble :: "rat \<Rightarrow> jsnum" where
  "toDouble r =
     (if r = 0 then Fin 0
      else
        let a = \<bar>r\<bar>;
            q = max (binaryExponent a) (- 1022) - 52;
            v = of_int (roundHalfEven (a / pow2 q)) * pow2 q
        in if 2 ^ 1024 \<le> v then (if r < 0 then NegInf else PosInf)
           else Fin (if r < 0 then - v else v))"

text \<open>\<open>x * k\<close> for a finite double \<open>k\<close>: the exact product, rounded.\<close>

fun multiply :: "jsnum \<Rightarrow> rat \<Rightarrow> jsnum" where
  "multiply NaN k = NaN"
| "multiply (Fin r) k = toDouble (r * k)"
| "multiply PosInf k = (if k = 0 then NaN else if 0 < k then PosInf else NegInf)"
| "multiply NegInf k = (if k = 0 then NaN else if 0 < k then NegInf else PosInf)"

text \<open>\<open>x + k\<close> for a finite double \<open>k\<close>: the exact sum, rounded.\<close>

fun add :: "jsnum \<Rightarrow> rat \<Rightarrow> jsnum" where
  "add NaN k = NaN"
| "add (Fin r) k = toDouble (r + k)"
| "add PosInf k = PosInf"
| "add NegInf k = NegInf"

text \<open>\<open>x || 0\<close> on a number: \<open>NaN\<close> and \<open>0\<close> are falsy.\<close>

fun orZero :: "jsnum \<Rightarrow> jsnum" where
  "orZero NaN = Fin 0"
| "orZero (Fin r) = (if r = 0 then Fin 0 else Fin r)"
| "orZero PosInf = PosInf"
| "orZero NegInf = NegInf"

text \<open>\<open>Number.isInteger\<close>.\<close>

fun isInteger :: "jsnum \<Rightarrow> bool" where
  "isInteger (Fin r) = (rat_of_int \<lfloor>r\<rfloor> = r)"
| "isInteger x = False"

text \<open>
  A thrown value: an \<open>Error\<close> object with its message, or \<open>undefined\<close> (what an
  uninitialised \<open>let\<close> variable holds).
\<close>

datatype thrown = Undefined | Error jsstring

subsection \<open>Character classes\<close>

text \<open>\<open>\d\<close> is \<open>[0-9]\<close>, \<open>\w\<close> is \<open>[A-Za-z0-9_]\<close>, and \<open>\s\<close> is the white space and
  line terminator set of ECMAScript.\<close>

definition isDigit :: "nat \<Rightarrow> bool" where
  "isDigit c \<longleftrightarrow> 48 \<le> c \<and> c \<le> 57"

definition isWordChar :: "nat \<Rightarrow> bool" where
  "isWordChar c \<longleftrightarrow>
     (48 \<le> c \<and> c \<le> 57) \<or> (65 \<le> c \<and> c \<le> 90) \<or> c = 95 \<or> (97 \<le> c \<and> c \<le> 122)"

definition isWhiteSpace :: "nat \<Rightarrow> bool" where
  "isWhiteSpace c \<longleftrightarrow>
     (9 \<le> c \<and> c \<le> 13) \<or> c = 32 \<or> c = 160 \<or> c = 5760 \<or> (8192 \<le> c \<and> c \<le> 8202) \<or>
     c = 8232 \<or> c = 8233 \<or> c = 8239 \<or> c = 8287 \<or> c = 12288 \<or> c = 65279"

subsection \<open>String methods\<close>

text \<open>
  \<open>String.prototype.toLowerCase\<close>. The ASCII capitals go to their small letters; of all
  other characters only two have a lower case that holds an ASCII letter: the Kelvin
  sign U+212A (to \<open>k\<close>) and U+0130 (to \<open>i\<close> and U+0307). Every other code unit is left
  as it is here: the Unicode tables send it to code units outside ASCII that are no
  white space, and nothing that reads a lower-cased string below tells such code
  units apart.
\<close>

definition lowerUnit :: "nat \<Rightarrow> jsstring" where
  "lowerUnit c =
     (if 65 \<le> c \<and> c \<le> 90 then [c + 32]
      else if c = 8490 then [107]
      else if c = 304 then [105, 775]
      else [c])"

definition toLowerCase :: "jsstring \<Rightarrow> jsstring" where
  "toLowerCase s = concat (map lowerUnit s)"

text \<open>\<open>s.includes(t)\<close>: \<open>t\<close> occurs in \<open>s\<close> as a contiguous run.\<close>

fun includes_str :: "jsstring \<Rightarrow> jsstring \<Rightarrow> bool" where
  "includes_str [] t = (t = [])"
| "includes_str (c # cs) t = (prefix t (c # cs) \<or> includes_str cs t)"

text \<open>\<open>x || d\<close> on a string that may be \<open>null\<close> or \<open>undefined\<close>: the empty string is
  falsy.\<close>

fun orElse :: "jsstring option \<Rightarrow> jsstring \<Rightarrow> jsstring" where
  "orElse None d = d"
| "orElse (Some s) d = (if s = [] then d else s)"

subsection \<open>\<open>parseFloat\<close> and \<open>parseInt\<close>\<close>

definition digitsValue :: "jsstring \<Rightarrow> nat" where
  "digitsValue ds = foldl (\<lambda>a c. 10 * a + (c - 48)) 0 ds"

text \<open>An optional sign: \<open>True\<close> for \<open>-\<close>.\<close>

fun signOf :: "jsstring \<Rightarrow> bool \<times> jsstring" where
  "signOf [] = (False, [])"
| "signOf (c # cs) = (if c = 45 then (True, cs) else if c = 43 then (False, cs) else (False, c # cs))"

text \<open>The exponent part \<open>e\<close> or \<open>E\<close>, an optional sign, one digit or more; \<open>0\<close> when the
  text does not start with one.\<close>

fun exponentOf :: "jsstring \<Rightarrow> int" where
  "exponentOf [] = 0"
| "exponentOf (c # cs) =
     (if c = 101 \<or> c = 69
      then (case signOf cs of (neg, r) \<Rightarrow>
              if takeWhile isDigit r = [] then 0
              else if neg then - int (digitsValue (takeWhile isDigit r))
              else int (digitsValue (takeWhile isDigit r)))
      else 0)"

definition pow10 :: "int \<Rightarrow> rat" where
  "pow10 e = (if e < 0 then 1 / 10 ^ nat (- e) else 10 ^ nat e)"

text \<open>
  \<open>parseFloat\<close> reads the longest prefix that is a decimal literal, after leading white
  space: a sign, digits, a fraction, an exponent; the result is the double nearest to
  the value written (the standard lets an implementation drop the digits after the
  twentieth; V8 does not), or an infinity for the literal \<open>Infinity\<close>.
\<close>

definition parseFloat :: "jsstring \<Rightarrow> jsnum" where
  "parseFloat s =
     (case signOf (dropWhile isWhiteSpace s) of (neg, u) \<Rightarrow>
        if prefix (ascii ''Infinity'') u then (if neg then NegInf else PosInf)
        else
          let ip = takeWhile isDigit u;
              u1 = dropWhile isDigit u;
              dot = (u1 \<noteq> [] \<and> hd u1 = 46);
              fp = (if dot then takeWhile isDigit (tl u1) else []);
              u2 = (if dot then dropWhile isDigit (tl u1) else u1)
          in if ip = [] \<and> fp = [] then NaN
             else toDouble ((if neg then - 1 else 1) *
                            (of_nat (digitsValue ip) + of_nat (digitsValue fp) / 10 ^ length fp) *
                            pow10 (exponentOf u2)))"

text \<open>The value of a digit in a radix up to 36.\<close>

definition digitOf :: "nat \<Rightarrow> nat option" where
  "digitOf c =
     (if 48 \<le> c \<and> c \<le> 57 then Some (c - 48)
      else if 97 \<le> c \<and> c \<le> 122 then Some (c - 87)
      else if 65 \<le> c \<and> c \<le> 90 then Some (c - 55)
      else None)"

definition isRadixDigit :: "nat \<Rightarrow> nat \<Rightarrow> bool" where
  "isRadixDigit R c = (case digitOf c of None \<Rightarrow> False | Some d \<Rightarrow> d < R)"

definition radixValue :: "nat \<Rightarrow> jsstring \<Rightarrow> nat" where
  "radixValue R ds = foldl (\<lambda>a c. R * a + the (digitOf c)) 0 ds"

definition hasHexPrefix :: "jsstring \<Rightarrow> bool" where
  "hasHexPrefix u \<longleftrightarrow> prefix [48, 120] u \<or> prefix [48, 88] u"

text \<open>
  \<open>parseInt(s, radix)\<close>, the radix \<open>None\<close> when the call gives none: leading white
  space, a sign, \<open>0x\<close> when the radix allows it, then the longest run of digits of the
  radix; the result is the double nearest to the integer written.
\<close>

definition parseInt :: "jsstring \<Rightarrow> nat option \<Rightarrow> jsnum" where
  "parseInt s radix =
     (case signOf (dropWhile isWhiteSpace s) of (neg, u) \<Rightarrow>
        let r0 = (case radix of None \<Rightarrow> 0 | Some r \<Rightarrow> r) in
        if r0 \<noteq> 0 \<and> (r0 < 2 \<or> 36 < r0) then NaN
        else
          let hex = ((r0 = 0 \<or> r0 = 16) \<and> hasHexPrefix u);
              R = (if hex then 16 else if r0 = 0 then 10 else r0);
              ds = takeWhile (isRadixDigit R) (if hex then drop 2 u else u)
          in if ds = [] then NaN
             else toDouble ((if neg then - 1 else 1) * of_nat (radixValue R ds)))"

section \<open>Normalizers\<close>

subsection \<open>\<open>extractHashtags\<close> (index.ts 75-78, part_000 525-528)\<close>

text \<open>The class of the pattern: \<open>\w\<close> and the code units U+0590 to U+05FF.\<close>

definition isHashtagChar :: "nat \<Rightarrow> bool" where
  "isHashtagChar c \<longleftrightarrow> isWordChar c \<or> (1424 \<le> c \<and> c \<le> 1535)"

text \<open>
  \<open>text.match(hashtagRegex) || []\<close>, the pattern a \<open>#\<close> and one character of the class
  or more, with the \<open>g\<close> flag: the matches from left to right, each
  greedy, the search going on after the end of a match; \<open>null\<close> (no match) becomes the
  empty array.
\<close>

function extractHashtags :: "jsstring \<Rightarrow> jsstring list" where
  "extractHashtags [] = []"
| "extractHashtags (c # cs) =
     (if c = 35 \<and> takeWhile isHashtagChar cs \<noteq> []
      then (c # takeWhile isHashtagChar cs) # extractHashtags (dropWhile isHashtagChar cs)
      else extractHashtags cs)"
  by pat_completeness auto
termination
  by (relation "measure length") (auto simp: length_dropWhile_le less_Suc_eq_le)

subsection \<open>\<open>parseLikeCount\<close> (index.ts 80-93)\<close>

text \<open>
  Nothing in the \<open>try\<close> block can throw on a string, so the \<open>catch\<close> branch is never
  taken and the function returns a number for every string.
\<close>

definition parseLikeCount :: "jsstring \<Rightarrow> jsnum" where
  "parseLikeCount text =
     (let cleanText = toLowerCase (filter (\<lambda>c. \<not> (c = 44 \<or> isWhiteSpace c)) text)
      in if includes_str cleanText (ascii ''k'') then multiply (parseFloat cleanText) 1000
         else if includes_str cleanText (ascii ''m'') then multiply (parseFloat cleanText) 1000000
         else orZero (parseInt cleanText None))"

subsection \<open>\<open>parseCount\<close> (part_000 466-476)\<close>

definition multipliers :: "(nat \<times> rat) list" where
  "multipliers = [(107, 1000), (109, 1000000), (98, 1000000000)]"

definition isDigitOrDot :: "nat \<Rightarrow> bool" where
  "isDigitOrDot c \<longleftrightarrow> isDigit c \<or> c = 46"

text \<open>
  \<open>normalized.match(/^([\d.]+)([kmb])?$/)\<close>: the groups \<open>num\<close> and \<open>unit\<close> of the match,
  or \<open>None\<close> for \<open>null\<close>. The first group can only be the whole leading run of digits
  and dots, since what follows it is a unit letter or the end.
\<close>

definition matchCount :: "jsstring \<Rightarrow> (jsstring \<times> nat option) option" where
  "matchCount normalized =
     (let num = takeWhile isDigitOrDot normalized;
          rest = dropWhile isDigitOrDot normalized
      in if num = [] then None
         else (case rest of
                 [] \<Rightarrow> Some (num, None)
               | [u] \<Rightarrow> if u = 107 \<or> u = 109 \<or> u = 98 then Some (num, Some u) else None
               | _ \<Rightarrow> None))"

definition parseCount :: "jsstring \<Rightarrow> jsnum" where
  "parseCount count =
     (let normalized = filter (\<lambda>c. c \<noteq> 44) (toLowerCase count)
      in case matchCount normalized of
           None \<Rightarrow> Fin 0
         | Some (num, unit) \<Rightarrow>
             let value = parseFloat num
             in (case unit of
                   Some u \<Rightarrow> multiply value (the (map_of multipliers u))
                 | None \<Rightarrow> value))"

section \<open>The runtime\<close>

text \<open>
  An asynchronous function is a function from the state of the run to its outcome, a
  thrown value (the promise rejects) or a result, and the new state. The state holds
  what the program writes to the console and the world outside it: the browser, the
  page it shows, the clock. A template literal is logged as the list of its parts.
\<close>

datatype logpart = Str jsstring | Num jsnum | Thrown thrown

datatype logline = ConsoleLog "logpart list" | ConsoleError "logpart list"

record 'w runtime =
  console :: "logline list"
  world :: 'w

type_synonym ('a, 'w) io = "'w runtime \<Rightarrow> (thrown + 'a) \<times> 'w runtime"

definition resolve :: "'a \<Rightarrow> ('a, 'w) io" where
  "resolve x st = (Inr x, st)"

definition throw :: "thrown \<Rightarrow> ('a, 'w) io" where
  "throw e st = (Inl e, st)"

text \<open>\<open>const x = await m; f x\<close>: a rejection of \<open>m\<close> leaves the block.\<close>

definition await :: "('a, 'w) io \<Rightarrow> ('a \<Rightarrow> ('b, 'w) io) \<Rightarrow> ('b, 'w) io" where
  "await m f st = (case m st of (Inl e, st') \<Rightarrow> (Inl e, st') | (Inr x, st') \<Rightarrow> f x st')"

text \<open>\<open>try { m } catch (error) { h error }\<close>.\<close>

definition tryCatch :: "('a, 'w) io \<Rightarrow> (thrown \<Rightarrow> ('a, 'w) io) \<Rightarrow> ('a, 'w) io" where
  "tryCatch m h st = (case m st of (Inl e, st') \<Rightarrow> h e st' | (Inr x, st') \<Rightarrow> (Inr x, st'))"

definition consoleLog :: "logpart list \<Rightarrow> (unit, 'w) io" where
  "consoleLog parts st = (Inr (), st\<lparr>console := console st @ [ConsoleLog parts]\<rparr>)"

definition consoleError :: "logpart list \<Rightarrow> (unit, 'w) io" where
  "consoleError parts st = (Inr (), st\<lparr>console := console st @ [ConsoleError parts]\<rparr>)"

text \<open>A call into the world: it reads and changes the world only.\<close>

definition external :: "('w \<Rightarrow> (thrown + 'a) \<times> 'w) \<Rightarrow> ('a, 'w) io" where
  "external f st = (case f (world st) of (r, w) \<Rightarrow> (r, st\<lparr>world := w\<rparr>))"

subsection \<open>The page-driving capability\<close>

text \<open>
  What a \<open>querySelector\<close> finds: the properties of an element the scripts read, each
  \<open>None\<close> where the element has \<open>null\<close> or no such property.
\<close>

record element =
  textContent :: "jsstring option"
  innerText :: "jsstring option"
  dateTime :: "jsstring option"
  href :: jsstring

record document =
  querySelector :: "jsstring \<Rightarrow> element option"
  querySelectorAll :: "jsstring \<Rightarrow> element list"
  pathname :: jsstring

text \<open>
  Puppeteer and the JavaScript runtime are not part of the repository: they are a
  parameter of the model. \<open>page_evaluate\<close> stands for \<open>page.evaluate(script)\<close>: it
  rejects, or hands the script the document the page shows. \<open>page_goto\<close> takes the
  URL and the \<open>timeout\<close> option, \<open>page_dollar\<close> is \<open>page.$\<close> (has it found an element),
  \<open>setTimeout\<close> lets the given milliseconds pass, \<open>math_random\<close> is \<open>Math.random\<close>.
\<close>

record 'w puppeteer =
  page_goto :: "jsstring \<Rightarrow> nat option \<Rightarrow> 'w \<Rightarrow> (thrown + unit) \<times> 'w"
  page_evaluate :: "'w \<Rightarrow> (thrown + document) \<times> 'w"
  page_waitForSelector :: "jsstring \<Rightarrow> nat \<Rightarrow> 'w \<Rightarrow> (thrown + unit) \<times> 'w"
  page_dollar :: "jsstring \<Rightarrow> 'w \<Rightarrow> (thrown + bool) \<times> 'w"
  browser_close :: "'w \<Rightarrow> (thrown + unit) \<times> 'w"
  setTimeout :: "rat \<Rightarrow> 'w \<Rightarrow> 'w"
  math_random :: "'w \<Rightarrow> rat \<times> 'w"

text \<open>\<open>await new Promise((resolve) => setTimeout(resolve, ms))\<close>, which never rejects.\<close>

definition sleep :: "'w puppeteer \<Rightarrow> rat \<Rightarrow> (unit, 'w) io" where
  "sleep env ms st = (Inr (), st\<lparr>world := setTimeout env ms (world st)\<rparr>)"

text \<open>
  The milliseconds of a delay that was computed: Node takes a delay that is \<open>NaN\<close> or
  infinite as 1.
\<close>

fun milliseconds :: "jsnum \<Rightarrow> rat" where
  "milliseconds (Fin r) = r"
| "milliseconds x = 1"

definition evaluate :: "'w puppeteer \<Rightarrow> (document \<Rightarrow> 'a) \<Rightarrow> ('a, 'w) io" where
  "evaluate env script = await (external (page_evaluate env)) (\<lambda>doc. resolve (script doc))"

subsection \<open>\<open>retryOperation\<close> (index.ts 95-113)\<close>

text \<open>
  The loop \<open>for (let i = 0; i < retries; i++)\<close> with its variables \<open>i\<close>, \<open>delay\<close> and
  \<open>lastError\<close>. Beside the outcome and the state it returns what it did, in order: each
  call of the operation with its outcome, and each wait with the delay asked for.
  \<open>retries\<close> is an integer (zero and negative counts included), \<open>delay\<close> a number of
  milliseconds.
\<close>

datatype 'a event = Attempt "thrown + 'a" | Wait nat

function retryLoop ::
  "'w puppeteer \<Rightarrow> ('a, 'w) io \<Rightarrow> int \<Rightarrow> int \<Rightarrow> nat \<Rightarrow> thrown \<Rightarrow> 'w runtime \<Rightarrow>
     (thrown + 'a) \<times> 'w runtime \<times> 'a event list" where
  "retryLoop env operation retries i delay lastError st =
     (if i < retries then
        (case operation st of
           (Inr v, st') \<Rightarrow> (Inr v, st', [Attempt (Inr v)])
         | (Inl error, st') \<Rightarrow>
             if i < retries - 1
             then (case retryLoop env operation retries (i + 1) (delay * 2) error
                          (snd (sleep env (of_nat delay) st')) of
                     (r, st'', tr) \<Rightarrow> (r, st'', Attempt (Inl error) # Wait delay # tr))
             else (case retryLoop env operation retries (i + 1) delay error st' of
                     (r, st'', tr) \<Rightarrow> (r, st'', Attempt (Inl error) # tr)))
      else (Inl lastError, st, []))"
  by pat_completeness auto
termination
  by (relation "measure (\<lambda>(env, operation, retries, i, delay, lastError, st). nat (retries - i))") auto

definition retryTrace ::
  "'w puppeteer \<Rightarrow> ('a, 'w) io \<Rightarrow> int \<Rightarrow> nat \<Rightarrow> 'w runtime \<Rightarrow>
     (thrown + 'a) \<times> 'w runtime \<times> 'a event list" where
  "retryTrace env operation retries delay st =
     retryLoop env operation retries 0 delay Undefined st"

definition retryOperation :: "'w puppeteer \<Rightarrow> ('a, 'w) io \<Rightarrow> int \<Rightarrow> nat \<Rightarrow> ('a, 'w) io" where
  "retryOperation env operation retries delay st =
     (case retryTrace env operation retries delay st of (r, st', tr) \<Rightarrow> (r, st'))"



section \<open>The scraper\<close>

text \<open>
  The repository holds three versions of the scraper. Modelled are index.ts, the one
  with the retry runner, and the second file of part_000 (lines 259-555), the one
  with a login and \<open>parseCount\<close>; names of the latter carry \<open>_part\<close> where the two
  differ. The first file of part_000 (lines 1-258) is index.ts without the retry
  runner and without the classifier, and is not modelled. The types \<open>PostData\<close> and
  \<open>UserProfile\<close> are the same in all of them.
\<close>

datatype postType = Image | Video | Carousel | Reel

record PostData =
  type :: postType
  likes :: jsnum
  hashtags :: "jsstring list"
  caption :: jsstring
  postUrl :: jsstring
  timestamp :: jsstring

record UserProfile =
  username :: jsstring
  bio :: jsstring
  posts :: "PostData list"
  followersCount :: jsnum
  followingCount :: jsnum

text \<open>
  The fields of \<open>SocialMediaScraper\<close>: the browser and the page, \<open>None\<close> for \<open>null\<close>; the
  variant of part_000 has \<open>isLoggedIn\<close> as well. A new scraper holds neither.
\<close>

record scraper =
  browser :: "nat option"
  page :: "nat option"

record scraper_login = scraper +
  isLoggedIn :: bool

definition newScraper :: scraper where
  "newScraper = \<lparr>browser = None, page = None\<rparr>"

definition newScraper_login :: scraper_login where
  "newScraper_login = \<lparr>browser = None, page = None, isLoggedIn = False\<rparr>"

text \<open>\<open>document.querySelector(sel)?.prop\<close>.\<close>

definition queryProp :: "document \<Rightarrow> jsstring \<Rightarrow> (element \<Rightarrow> jsstring option) \<Rightarrow> jsstring option" where
  "queryProp doc sel prop = (case querySelector doc sel of None \<Rightarrow> None | Some el \<Rightarrow> prop el)"

text \<open>The double quote, for the selectors that hold one.\<close>

definition dq :: jsstring where
  "dq = [34]"

subsection \<open>\<open>close\<close> (index.ts 253-257, part_000 530-534)\<close>

definition close :: "'w puppeteer \<Rightarrow> 'a scraper_scheme \<Rightarrow> (unit, 'w) io" where
  "close env sc = (case browser sc of None \<Rightarrow> resolve () | Some b \<Rightarrow> external (browser_close env))"

subsection \<open>index.ts\<close>

text \<open>\<open>waitForSelector\<close> (64-73).\<close>

definition waitForSelector :: "'w puppeteer \<Rightarrow> 'a scraper_scheme \<Rightarrow> jsstring \<Rightarrow> nat \<Rightarrow> (bool, 'w) io" where
  "waitForSelector env sc selector timeout =
     (if page sc = None then throw (Error (ascii ''Page not initialized''))
      else tryCatch
             (await (external (page_waitForSelector env selector timeout)) (\<lambda>_. resolve True))
             (\<lambda>error. await (consoleError [Str (ascii ''Timeout waiting for selector: '' @ selector)])
                (\<lambda>_. resolve False)))"

text \<open>\<open>determinePostType\<close> (238-251): the script run in the page, and the method.\<close>

definition postTypeScript :: "document \<Rightarrow> postType" where
  "postTypeScript doc =
     (if querySelector doc (ascii ''video'') \<noteq> None then Video
      else if querySelector doc (ascii ''button[aria-label='' @ dq @ ascii ''Next'' @ dq @ ascii '']'') \<noteq> None
        then Carousel
      else if querySelector doc
                (ascii ''[role='' @ dq @ ascii ''button'' @ dq @ ascii ''][tabindex='' @ dq @ ascii ''0'' @ dq @ ascii '']'')
              \<noteq> None
        then Reel
      else Image)"

definition determinePostType :: "'w puppeteer \<Rightarrow> 'a scraper_scheme \<Rightarrow> (postType, 'w) io" where
  "determinePostType env sc =
     (if page sc = None then throw (Error (ascii ''Page not initialized''))
      else evaluate env postTypeScript)"

text \<open>The scripts of \<open>scrapeUserProfile\<close> (137-176, 187-202).\<close>

definition bioScript :: "document \<Rightarrow> jsstring" where
  "bioScript doc =
     (case querySelector doc (ascii ''header section span'') of
        None \<Rightarrow> []
      | Some bioElement \<Rightarrow> orElse (textContent bioElement) [])"

definition countScript :: "jsstring \<Rightarrow> document \<Rightarrow> jsnum" where
  "countScript selector doc =
     (case querySelector doc selector of
        None \<Rightarrow> Fin 0
      | Some el \<Rightarrow> parseInt (orElse (textContent el) (ascii ''0'')) (Some 10))"

definition postLinksScript :: "document \<Rightarrow> jsstring list" where
  "postLinksScript doc = take 4 (map href (querySelectorAll doc (ascii ''article a'')))"

text \<open>The object \<open>{caption, likes, timestamp}\<close> as a triple.\<close>

definition postDataScript :: "document \<Rightarrow> jsstring \<times> jsstring \<times> jsstring" where
  "postDataScript doc =
     (orElse (queryProp doc (ascii ''article h1'') textContent) [],
      orElse (queryProp doc (ascii ''article section span'') textContent) (ascii ''0''),
      orElse (queryProp doc (ascii ''time'') dateTime) [])"

text \<open>
  The statements of the \<open>try\<close> block of the loop up to the object pushed (183-213):
  two retried steps, the hashtags, the post type.
\<close>

definition processPost :: "'w puppeteer \<Rightarrow> 'a scraper_scheme \<Rightarrow> jsstring \<Rightarrow> (PostData, 'w) io" where
  "processPost env sc link =
     await (retryOperation env (external (page_goto env link None)) 3 1000) (\<lambda>_.
     await (retryOperation env (evaluate env postDataScript) 3 1000) (\<lambda>(cap, lks, ts).
     await (determinePostType env sc) (\<lambda>t.
     resolve \<lparr>type = t, likes = parseLikeCount lks, hashtags = extractHashtags cap,
              caption = cap, postUrl = link, timestamp = ts\<rparr>)))"

text \<open>
  One turn of \<open>for (const link of postLinks)\<close> (181-223): the \<open>try\<close> block pushes the
  post, logs and waits a second; the \<open>catch\<close> block logs the error and goes on.
\<close>

definition processLink :: "'w puppeteer \<Rightarrow> 'a scraper_scheme \<Rightarrow> jsstring \<Rightarrow> PostData list \<Rightarrow> (PostData list, 'w) io" where
  "processLink env sc link ps =
     tryCatch
       (await (processPost env sc link) (\<lambda>post.
        await (consoleLog [Str (ascii ''Processed post: '' @ link)]) (\<lambda>_.
        await (sleep env 1000) (\<lambda>_.
        resolve (ps @ [post])))))
       (\<lambda>error.
        await (consoleError [Str (ascii ''Error processing post '' @ link @ ascii '':''), Thrown error]) (\<lambda>_.
        resolve ps))"

fun processLinks :: "'w puppeteer \<Rightarrow> 'a scraper_scheme \<Rightarrow> jsstring list \<Rightarrow> PostData list \<Rightarrow> (PostData list, 'w) io" where
  "processLinks env sc [] ps st = (Inr ps, st)"
| "processLinks env sc (link # links) ps st =
     (case processLink env sc link ps st of
        (Inl e, st') \<Rightarrow> (Inl e, st')
      | (Inr ps', st') \<Rightarrow> processLinks env sc links ps' st')"

text \<open>
  \<open>scrapeUserProfile\<close> (115-236) up to the loop: the navigation, the login check, the
  bio, the two counts and the post links.
\<close>

definition profileHeader ::
  "'w puppeteer \<Rightarrow> 'a scraper_scheme \<Rightarrow> jsstring \<Rightarrow> (jsstring \<times> jsnum \<times> jsnum \<times> jsstring list, 'w) io" where
  "profileHeader env sc name =
     await (consoleLog [Str (ascii ''Navigating to profile: '' @ name)]) (\<lambda>_.
     await (retryOperation env
              (external (page_goto env (ascii ''https://www.instagram.com/'' @ name @ ascii ''/'') (Some 30000)))
              3 1000) (\<lambda>_.
     await (waitForSelector env sc (ascii ''input[name='' @ dq @ ascii ''username'' @ dq @ ascii '']'') 5000) (\<lambda>login.
     if login then throw (Error (ascii ''Login required to view this profile''))
     else
     await (waitForSelector env sc (ascii ''header section'') 5000) (\<lambda>_.
     await (retryOperation env (evaluate env bioScript) 3 1000) (\<lambda>b.
     await (consoleLog [Str (ascii ''Bio extracted successfully'')]) (\<lambda>_.
     await (retryOperation env
              (evaluate env (countScript (ascii ''header section ul li:nth-child(2) span''))) 3 1000) (\<lambda>fc.
     await (retryOperation env
              (evaluate env (countScript (ascii ''header section ul li:nth-child(3) span''))) 3 1000) (\<lambda>fg.
     await (consoleLog [Str (ascii ''Follower counts extracted'')]) (\<lambda>_.
     await (retryOperation env (evaluate env postLinksScript) 3 1000) (\<lambda>postLinks.
     await (consoleLog [Str (ascii ''Found ''), Num (Fin (of_nat (length postLinks))), Str (ascii '' posts'')]) (\<lambda>_.
     resolve (b, fc, fg, postLinks))))))))))))"

definition scrapeUserProfile :: "'w puppeteer \<Rightarrow> 'a scraper_scheme \<Rightarrow> jsstring \<Rightarrow> (UserProfile, 'w) io" where
  "scrapeUserProfile env sc name =
     (if page sc = None then throw (Error (ascii ''Scraper not initialized''))
      else tryCatch
             (await (profileHeader env sc name) (\<lambda>(b, fc, fg, postLinks).
              await (processLinks env sc postLinks []) (\<lambda>ps.
              resolve \<lparr>username = name, bio = b, posts = ps,
                       followersCount = fc, followingCount = fg\<rparr>)))
             (\<lambda>error.
              await (consoleError [Str (ascii ''Error scraping profile '' @ name @ ascii '':''), Thrown error]) (\<lambda>_.
              throw error)))"

subsection \<open>part_000, the variant with a login (259-555)\<close>

text \<open>\<open>determinePostType\<close> (512-523).\<close>

definition postTypeScript_part :: "document \<Rightarrow> postType" where
  "postTypeScript_part doc =
     (if querySelector doc (ascii ''video'') \<noteq> None then Video
      else if querySelector doc (ascii ''[aria-label='' @ dq @ ascii ''Next'' @ dq @ ascii '']'') \<noteq> None
        then Carousel
      else if includes_str (pathname doc) (ascii ''/reel/'') then Reel
      else Image)"

definition determinePostType_part :: "'w puppeteer \<Rightarrow> 'a scraper_scheme \<Rightarrow> (postType, 'w) io" where
  "determinePostType_part env sc =
     (if page sc = None then throw (Error (ascii ''Page not initialized''))
      else evaluate env postTypeScript_part)"

text \<open>\<open>getPostLinks\<close> (478-485).\<close>

definition getPostLinks :: "'w puppeteer \<Rightarrow> 'a scraper_scheme \<Rightarrow> (jsstring list, 'w) io" where
  "getPostLinks env sc =
     (if page sc = None then throw (Error (ascii ''Page not initialized''))
      else evaluate env (\<lambda>doc. map href (querySelectorAll doc (ascii ''article a''))))"

text \<open>\<open>scrapePost\<close> (487-510).\<close>

definition postDataScript_part :: "document \<Rightarrow> jsstring \<times> jsstring \<times> jsstring" where
  "postDataScript_part doc =
     (orElse (queryProp doc (ascii ''h1'') innerText) [],
      orElse (queryProp doc (ascii ''section span span'') innerText) (ascii ''0''),
      orElse (queryProp doc (ascii ''time'') dateTime) [])"

definition scrapePost :: "'w puppeteer \<Rightarrow> 'a scraper_scheme \<Rightarrow> jsstring \<Rightarrow> (PostData, 'w) io" where
  "scrapePost env sc url =
     (if page sc = None then throw (Error (ascii ''Page not initialized''))
      else
        await (external (page_goto env url None)) (\<lambda>_.
        await (sleep env 2000) (\<lambda>_.
        await (evaluate env postDataScript_part) (\<lambda>(cap, lks, ts).
        await (determinePostType_part env sc) (\<lambda>t.
        resolve \<lparr>type = t, likes = parseCount lks, hashtags = extractHashtags cap,
                 caption = cap, postUrl = url, timestamp = ts\<rparr>)))))"

text \<open>One turn of \<open>for (const link of postLinks.slice(0, 4))\<close> (443-451).\<close>

definition scrapeLink :: "'w puppeteer \<Rightarrow> 'a scraper_scheme \<Rightarrow> jsstring \<Rightarrow> PostData list \<Rightarrow> (PostData list, 'w) io" where
  "scrapeLink env sc link ps =
     tryCatch
       (await (scrapePost env sc link) (\<lambda>postData.
        await (external (\<lambda>w. case math_random env w of (r, w') \<Rightarrow> (Inr r, w'))) (\<lambda>r.
        await (sleep env (milliseconds (add (multiply (Fin r) 1000) 500))) (\<lambda>_.
        resolve (ps @ [postData])))))
       (\<lambda>error.
        await (consoleError [Str (ascii ''Error scraping post '' @ link @ ascii '':''), Thrown error]) (\<lambda>_.
        resolve ps))"

fun scrapeLinks :: "'w puppeteer \<Rightarrow> 'a scraper_scheme \<Rightarrow> jsstring list \<Rightarrow> PostData list \<Rightarrow> (PostData list, 'w) io" where
  "scrapeLinks env sc [] ps st = (Inr ps, st)"
| "scrapeLinks env sc (link # links) ps st =
     (case scrapeLink env sc link ps st of
        (Inl e, st') \<Rightarrow> (Inl e, st')
      | (Inr ps', st') \<Rightarrow> scrapeLinks env sc links ps' st')"

text \<open>The script of the profile page (419-433): the bio and the two counts as shown.\<close>

definition profileScript :: "document \<Rightarrow> jsstring \<times> jsstring \<times> jsstring" where
  "profileScript doc =
     (orElse (queryProp doc (ascii ''h1'') innerText) [],
      orElse (queryProp doc (ascii ''li:nth-child(2) span span'') innerText) (ascii ''0''),
      orElse (queryProp doc (ascii ''li:nth-child(3) span span'') innerText) (ascii ''0''))"

text \<open>\<open>scrapeUserProfile\<close> (394-464) up to the counts: what the profile page shows.\<close>

definition profileData :: "'w puppeteer \<Rightarrow> scraper_login \<Rightarrow> jsstring \<Rightarrow> (jsstring \<times> jsstring \<times> jsstring, 'w) io" where
  "profileData env sc name =
     await (external (\<lambda>w. case math_random env w of (r, w') \<Rightarrow> (Inr r, w'))) (\<lambda>r.
     await (sleep env (milliseconds (add (multiply (Fin r) 2000) 1000))) (\<lambda>_.
     await (external (page_goto env (ascii ''https://www.instagram.com/'' @ name @ ascii ''/'') (Some 300000))) (\<lambda>_.
     await (if \<not> isLoggedIn sc
            then await (external (page_dollar env (ascii ''text/Log in to Instagram''))) (\<lambda>loginWall.
                 if loginWall then throw (Error (ascii ''Login required to view this profile''))
                 else resolve ())
            else resolve ()) (\<lambda>_.
     await (sleep env 3000) (\<lambda>_.
     evaluate env profileScript)))))"

definition scrapeUserProfile_part :: "'w puppeteer \<Rightarrow> scraper_login \<Rightarrow> jsstring \<Rightarrow> (UserProfile, 'w) io" where
  "scrapeUserProfile_part env sc name =
     (if page sc = None then throw (Error (ascii ''Scraper not initialized''))
      else tryCatch
             (await (profileData env sc name) (\<lambda>(b, followers, following).
              await (getPostLinks env sc) (\<lambda>postLinks.
              await (scrapeLinks env sc (take 4 postLinks) []) (\<lambda>ps.
              resolve \<lparr>username = name, bio = b, posts = ps,
                       followersCount = parseCount followers,
                       followingCount = parseCount following\<rparr>))))
             (\<lambda>error.
              await (consoleError [Str (ascii ''Error scraping profile '' @ name @ ascii '':''), Thrown error]) (\<lambda>_.
              throw error)))"

section \<open>Notions the properties are stated with\<close>

text \<open>
  The definitions of this section follow the words of the specification, not the code;
  the observer of the world, \<open>callsOf\<close> and the last three are notions of the statements
  and of the proofs.
\<close>

text \<open>The delays of a run of \<open>n\<close> waits that starts at \<open>d\<close>.\<close>

fun backoffDelays :: "nat \<Rightarrow> nat \<Rightarrow> nat list" where
  "backoffDelays 0 d = []"
| "backoffDelays (Suc n) d = d # backoffDelays n (d * 2)"

text \<open>
  What an observer of the runner sees in the world: the calls of the operation and
  the timers set, with their milliseconds, in the order they happen. \<open>recording env\<close>
  is \<open>env\<close> with such an observer beside its world: \<open>setTimeout\<close> is written down and
  passed on, every other call is passed on. \<open>recorded operation\<close> is \<open>operation\<close> run in
  the world of \<open>env\<close>, each call of it written down. \<open>observed l st\<close> is the state \<open>st\<close>
  with the observer's list \<open>l\<close>.
\<close>

datatype call = Called | Timer rat

definition recording :: "'w puppeteer \<Rightarrow> (call list \<times> 'w) puppeteer" where
  "recording env =
     \<lparr>page_goto = (\<lambda>url timeout (l, w). case page_goto env url timeout w of (r, w') \<Rightarrow> (r, (l, w'))),
      page_evaluate = (\<lambda>(l, w). case page_evaluate env w of (r, w') \<Rightarrow> (r, (l, w'))),
      page_waitForSelector =
        (\<lambda>sel timeout (l, w). case page_waitForSelector env sel timeout w of (r, w') \<Rightarrow> (r, (l, w'))),
      page_dollar = (\<lambda>sel (l, w). case page_dollar env sel w of (r, w') \<Rightarrow> (r, (l, w'))),
      browser_close = (\<lambda>(l, w). case browser_close env w of (r, w') \<Rightarrow> (r, (l, w'))),
      setTimeout = (\<lambda>ms (l, w). (l @ [Timer ms], setTimeout env ms w)),
      math_random = (\<lambda>(l, w). case math_random env w of (r, w') \<Rightarrow> (r, (l, w')))\<rparr>"

definition observed :: "call list \<Rightarrow> 'w runtime \<Rightarrow> (call list \<times> 'w) runtime" where
  "observed l st = \<lparr>console = console st, world = (l, world st)\<rparr>"

definition recorded :: "('a, 'w) io \<Rightarrow> ('a, call list \<times> 'w) io" where
  "recorded operation st =
     (case operation \<lparr>console = console st, world = snd (world st)\<rparr> of
        (r, st') \<Rightarrow> (r, observed (fst (world st) @ [Called]) st'))"

text \<open>
  What the observer is promised to see when \<open>n\<close> attempts fail, the first delay being
  \<open>d\<close>: a call, a timer of \<open>d\<close>, a call, a timer of \<open>2 * d\<close>, and so on, and after the
  last call no timer. \<open>timers\<close> are the milliseconds of the timers of a list.
\<close>

fun backoffCalls :: "nat \<Rightarrow> nat \<Rightarrow> call list" where
  "backoffCalls 0 d = []"
| "backoffCalls (Suc 0) d = [Called]"
| "backoffCalls (Suc (Suc n)) d = Called # Timer (of_nat d) # backoffCalls (Suc n) (d * 2)"

fun timers :: "call list \<Rightarrow> rat list" where
  "timers [] = []"
| "timers (Called # cs) = timers cs"
| "timers (Timer ms # cs) = ms # timers cs"

text \<open>The calls a trace of the runner stands for.\<close>

fun callsOf :: "'a event list \<Rightarrow> call list" where
  "callsOf [] = []"
| "callsOf (Attempt r # tr) = Called # callsOf tr"
| "callsOf (Wait d # tr) = Timer (of_nat d) # callsOf tr"

text \<open>
  The hashtag tokens of a text, position by position: at a \<open>#\<close> that a character of the
  class follows, the \<open>#\<close> and the whole run of such characters; nothing elsewhere.
\<close>

fun tails :: "'a list \<Rightarrow> 'a list list" where
  "tails [] = [[]]"
| "tails (c # cs) = (c # cs) # tails cs"

definition tokenAt :: "jsstring \<Rightarrow> jsstring list" where
  "tokenAt s =
     (case s of
        [] \<Rightarrow> []
      | c # cs \<Rightarrow> if c = 35 \<and> cs \<noteq> [] \<and> isHashtagChar (hd cs)
                  then [c # takeWhile isHashtagChar cs] else [])"

definition hashtagTokens :: "jsstring \<Rightarrow> jsstring list" where
  "hashtagTokens s = concat (map tokenAt (tails s))"

text \<open>
  The signals of the post-type classifier: a \<open>video\<close> element, a "next" control (a
  button in index.ts, any element in part_000), a generic interactive control
  (index.ts), a reel route (part_000).
\<close>

definition hasVideo :: "document \<Rightarrow> bool" where
  "hasVideo doc \<longleftrightarrow> querySelector doc (ascii ''video'') \<noteq> None"

definition hasNextButton :: "document \<Rightarrow> bool" where
  "hasNextButton doc \<longleftrightarrow>
     querySelector doc (ascii ''button[aria-label='' @ dq @ ascii ''Next'' @ dq @ ascii '']'') \<noteq> None"

definition hasNextLabel :: "document \<Rightarrow> bool" where
  "hasNextLabel doc \<longleftrightarrow>
     querySelector doc (ascii ''[aria-label='' @ dq @ ascii ''Next'' @ dq @ ascii '']'') \<noteq> None"

definition hasInteractiveControl :: "document \<Rightarrow> bool" where
  "hasInteractiveControl doc \<longleftrightarrow>
     querySelector doc
       (ascii ''[role='' @ dq @ ascii ''button'' @ dq @ ascii ''][tabindex='' @ dq @ ascii ''0'' @ dq @ ascii '']'')
     \<noteq> None"

definition onReelRoute :: "document \<Rightarrow> bool" where
  "onReelRoute doc \<longleftrightarrow> includes_str (pathname doc) (ascii ''/reel/'')"

text \<open>
  A number as the count parsers are promised to read it: digits \<open>ds\<close>, and after a dot
  the digits \<open>fs\<close> when there are any; its value; and the factor of a unit suffix.
\<close>

definition decimalText :: "jsstring \<Rightarrow> jsstring \<Rightarrow> jsstring" where
  "decimalText ds fs = ds @ (if fs = [] then [] else 46 # fs)"

definition decimalValue :: "jsstring \<Rightarrow> jsstring \<Rightarrow> rat" where
  "decimalValue ds fs = of_nat (digitsValue ds) + of_nat (digitsValue fs) / 10 ^ length fs"

definition unitFactor :: "jsstring \<Rightarrow> rat" where
  "unitFactor u =
     (if u = ascii ''k'' then 1000 else if u = ascii ''m'' then 1000000
      else if u = ascii ''b'' then 1000000000 else 1)"

text \<open>
  The line a \<open>catch\<close> block writes with \<open>console.error\<close>: the message with the link,
  and the error caught.
\<close>

definition errorLine :: "string \<Rightarrow> jsstring \<Rightarrow> thrown \<Rightarrow> logline" where
  "errorLine what link e = ConsoleError [Str (ascii what @ link @ ascii '':''), Thrown e]"

text \<open>A number below zero; \<open>NaN\<close> is not.\<close>

fun isNegative :: "jsnum \<Rightarrow> bool" where
  "isNegative (Fin r) = (r < 0)"
| "isNegative NegInf = True"
| "isNegative x = False"

text \<open>An asynchronous function that writes nothing to the console.\<close>

definition quiet :: "('a, 'w) io \<Rightarrow> bool" where
  "quiet m \<longleftrightarrow> (\<forall>st. console (snd (m st)) = console st)"

section \<open>Environments for the examples\<close>

text \<open>
  A world that only counts: the calls made into it. \<open>stubEnv\<close> is a browser in which
  every call succeeds at once; \<open>flaky\<close> is an operation that fails on its first two
  calls and returns 42 from the third on; \<open>failing\<close> fails on every call, with the
  number of the call as its message.
\<close>

definition emptyDocument :: document where
  "emptyDocument = \<lparr>querySelector = (\<lambda>sel. None), querySelectorAll = (\<lambda>sel. []), pathname = []\<rparr>"

definition stubEnv :: "nat puppeteer" where
  "stubEnv =
     \<lparr>page_goto = (\<lambda>url timeout w. (Inr (), w)),
      page_evaluate = (\<lambda>w. (Inr emptyDocument, w)),
      page_waitForSelector = (\<lambda>sel timeout w. (Inr (), w)),
      page_dollar = (\<lambda>sel w. (Inr False, w)),
      browser_close = (\<lambda>w. (Inr (), w)),
      setTimeout = (\<lambda>ms w. w),
      math_random = (\<lambda>w. (0, w))\<rparr>"

definition flaky :: "(nat, nat) io" where
  "flaky st = (if world st < 2 then Inl (Error [48 + world st]) else Inr 42, st\<lparr>world := world st + 1\<rparr>)"

definition failing :: "(nat, nat) io" where
  "failing st = (Inl (Error [48 + world st]), st\<lparr>world := world st + 1\<rparr>)"

definition start :: "nat runtime" where
  "start = \<lparr>console = [], world = 0\<rparr>"

text \<open>
  \<open>strictEnv\<close> is a browser whose \<open>close\<close> rejects once the browser is closed; its world
  says whether the browser runs. \<open>launched\<close> is a scraper after \<open>initialize\<close>.
\<close>

definition strictEnv :: "bool puppeteer" where
  "strictEnv =
     \<lparr>page_goto = (\<lambda>url timeout w. (Inr (), w)),
      page_evaluate = (\<lambda>w. (Inr emptyDocument, w)),
      page_waitForSelector = (\<lambda>sel timeout w. (Inr (), w)),
      page_dollar = (\<lambda>sel w. (Inr False, w)),
      browser_close = (\<lambda>w. (if w then Inr () else Inl (Error (ascii ''Connection closed'')), False)),
      setTimeout = (\<lambda>ms w. w),
      math_random = (\<lambda>w. (0, w))\<rparr>"

definition launched :: scraper where
  "launched = \<lparr>browser = Some 0, page = Some 0\<rparr>"

definition element0 :: element where
  "element0 = \<lparr>textContent = None, innerText = None, dateTime = None, href = []\<rparr>"

text \<open>A post page with a video and a "next" control, on a reel route.\<close>

definition videoCarousel :: document where
  "videoCarousel =
     \<lparr>querySelector =
        (\<lambda>sel. if sel = ascii ''video''
                  \<or> sel = ascii ''[aria-label='' @ dq @ ascii ''Next'' @ dq @ ascii '']''
                  \<or> sel = ascii ''button[aria-label='' @ dq @ ascii ''Next'' @ dq @ ascii '']''
                then Some element0 else None),
      querySelectorAll = (\<lambda>sel. []),
      pathname = ascii ''/reel/abc/''\<rparr>"

text \<open>
  A profile with three posts, shown by \<open>gridEnv\<close> on every page: the follower count
  reads \<open>1.5\<close> where part_000 looks for it and \<open>12.3k\<close> where index.ts does; no login
  form ever appears; the second post cannot be loaded. \<open>launched_login\<close> is the scraper
  of part_000 after \<open>initialize\<close> without credentials.
\<close>

definition launched_login :: scraper_login where
  "launched_login = \<lparr>browser = Some 0, page = Some 0, isLoggedIn = False\<rparr>"

definition gridDocument :: document where
  "gridDocument =
     \<lparr>querySelector =
        (\<lambda>sel. if sel = ascii ''li:nth-child(2) span span''
                then Some (element0\<lparr>innerText := Some (ascii ''1.5'')\<rparr>)
                else if sel = ascii ''header section ul li:nth-child(2) span''
                then Some (element0\<lparr>textContent := Some (ascii ''12.3k'')\<rparr>)
                else None),
      querySelectorAll =
        (\<lambda>sel. if sel = ascii ''article a''
                then [element0\<lparr>href := ascii ''/p/1/''\<rparr>, element0\<lparr>href := ascii ''/p/2/''\<rparr>,
                      element0\<lparr>href := ascii ''/p/3/''\<rparr>]
                else []),
      pathname = []\<rparr>"

definition gridEnv :: "nat puppeteer" where
  "gridEnv =
     \<lparr>page_goto = (\<lambda>url timeout w.
        (if url = ascii ''/p/2/'' then Inl (Error (ascii ''net::ERR_FAILED'')) else Inr (), w)),
      page_evaluate = (\<lambda>w. (Inr gridDocument, w)),
      page_waitForSelector = (\<lambda>sel timeout w. (Inl (Error (ascii ''TimeoutError'')), w)),
      page_dollar = (\<lambda>sel w. (Inr False, w)),
      browser_close = (\<lambda>w. (Inr (), w)),
      setTimeout = (\<lambda>ms w. w),
      math_random = (\<lambda>w. (0, w))\<rparr>"

section \<open>Rounding to double precision\<close>

text \<open>
  The binary exponent found by the two scaling loops is the one that brackets the argument
  between consecutive powers of two, so \<open>toDouble\<close> rounds the significand at 53 bits
  in the normal range.
\<close>

lemma floor_rat_numeral: "\<lfloor>(numeral a :: rat) / numeral b\<rfloor> = numeral a div numeral b"
  by (metis floor_divide_of_int_eq of_int_numeral)

lemma pow2_powi: "pow2 q = 2 powi q"
  by (simp add: pow2_def power_int_def inverse_eq_divide power_one_over)

lemma pow2_pos: "0 < pow2 q"
  by (simp add: pow2_powi)

lemma pow2_Suc: "pow2 (q + 1) = 2 * pow2 q"
  by (simp add: pow2_powi power_int_add)

lemma pow2_mono: "p \<le> q \<Longrightarrow> pow2 p \<le> pow2 q"
  by (simp add: pow2_powi power_int_increasing)

declare exponentUp.simps [simp del] exponentDown.simps [simp del]

lemma exponentUp_eq:
  "pow2 (e - k) \<le> a \<Longrightarrow> a < pow2 (e - k + 1) \<Longrightarrow> k \<le> e \<Longrightarrow> e \<le> 1024
    \<Longrightarrow> exponentUp a k = e"
proof (induction a k rule: exponentUp.induct)
  case (1 a k)
  show ?case
  proof (cases "k = e")
    case True
    with "1.prems" have "a < 2" by (simp add: pow2_powi)
    with True show ?thesis by (simp add: exponentUp.simps)
  next
    case False
    with "1.prems" have lt: "k < e" by simp
    have "pow2 1 \<le> pow2 (e - k)" using lt by (intro pow2_mono) simp
    with "1.prems" have a2: "\<not> a < 2" by (simp add: pow2_powi)
    have eq: "pow2 (e - k) = 2 * pow2 (e - (k + 1))"
      using pow2_Suc [of "e - (k + 1)"] by (simp add: algebra_simps)
    with "1.prems" have lo: "pow2 (e - (k + 1)) \<le> a / 2" by simp
    have "pow2 (e - k + 1) = 2 * pow2 (e - (k + 1) + 1)"
      using pow2_Suc [of "e - (k + 1) + 1"] by (simp add: algebra_simps)
    with "1.prems" have hi: "a / 2 < pow2 (e - (k + 1) + 1)" by simp
    from lt "1.prems" have c: "\<not> (a < 2 \<or> 1024 \<le> k)" using a2 by simp
    have "exponentUp (a / 2) (k + 1) = e"
      using c lo hi lt "1.prems" by (intro "1.IH") auto
    with c show ?thesis by (subst exponentUp.simps) simp
  qed
qed

lemma exponentDown_eq:
  "pow2 (e - k) \<le> a \<Longrightarrow> a < pow2 (e - k + 1) \<Longrightarrow> e \<le> k \<Longrightarrow> - 1075 \<le> e
    \<Longrightarrow> exponentDown a k = e"
proof (induction a k rule: exponentDown.induct)
  case (1 a k)
  show ?case
  proof (cases "k = e")
    case True
    with "1.prems" have "1 \<le> a" by (simp add: pow2_powi)
    with True show ?thesis by (simp add: exponentDown.simps)
  next
    case False
    with "1.prems" have lt: "e < k" by simp
    have "pow2 (e - k + 1) \<le> pow2 0" using lt by (intro pow2_mono) simp
    with "1.prems" have a1: "\<not> 1 \<le> a" by (simp add: pow2_powi)
    have eq: "pow2 (e - (k - 1)) = 2 * pow2 (e - k)"
      using pow2_Suc [of "e - k"] by (simp add: algebra_simps)
    with "1.prems" have lo: "pow2 (e - (k - 1)) \<le> a * 2" by simp
    have "pow2 (e - (k - 1) + 1) = 2 * pow2 (e - k + 1)"
      using pow2_Suc [of "e - k + 1"] by (simp add: algebra_simps)
    with "1.prems" have hi: "a * 2 < pow2 (e - (k - 1) + 1)" by simp
    from lt "1.prems" have c: "\<not> (1 \<le> a \<or> k \<le> - 1075)" using a1 by simp
    have "exponentDown (a * 2) (k - 1) = e"
      using c lo hi lt "1.prems" by (intro "1.IH") auto
    with c show ?thesis by (subst exponentDown.simps) simp
  qed
qed

lemma binaryExponent_eq:
  assumes "pow2 e \<le> a" "a < pow2 (e + 1)" "- 1075 \<le> e" "e < 1024"
  shows "binaryExponent a = e"
proof (cases "1 \<le> a")
  case True
  have "\<not> e < 0"
  proof
    assume "e < 0"
    then have "pow2 (e + 1) \<le> pow2 0" by (intro pow2_mono) simp
    with assms True show False by (simp add: pow2_powi)
  qed
  with assms True show ?thesis
    by (simp add: binaryExponent_def exponentUp_eq)
next
  case False
  have "\<not> 0 \<le> e"
  proof
    assume "0 \<le> e"
    then have "pow2 0 \<le> pow2 e" by (intro pow2_mono) simp
    with assms False show False by (simp add: pow2_powi)
  qed
  with assms False show ?thesis
    by (simp add: binaryExponent_def exponentDown_eq)
qed

lemma toDouble_normal:
  assumes "pow2 e \<le> r" "r < pow2 (e + 1)" "- 1022 \<le> e" "e < 1024"
  shows "toDouble r = (let v = of_int (roundHalfEven (r / pow2 (e - 52))) * pow2 (e - 52)
     in if 2 ^ 1024 \<le> v then PosInf else Fin v)"
proof -
  from assms pow2_pos [of e] have pos: "0 < r" by simp
  from assms have "binaryExponent r = e" by (intro binaryExponent_eq) auto
  with pos assms show ?thesis by (simp add: toDouble_def Let_def max_def)
qed

lemma roundHalfEven_of_int: "roundHalfEven (of_int k) = k"
  by (simp add: roundHalfEven_def)

lemma roundHalfEven_nonneg: "0 \<le> m \<Longrightarrow> 0 \<le> roundHalfEven m"
  by (auto simp: roundHalfEven_def Let_def)

lemma toDouble_not_NaN: "toDouble r \<noteq> NaN"
  by (simp add: toDouble_def Let_def)

lemma orZero_toDouble: "orZero (toDouble r) = toDouble r"
  by (cases "toDouble r") (simp_all add: toDouble_not_NaN)

lemma toDouble_nonneg: "0 \<le> r \<Longrightarrow> \<not> isNegative (toDouble r)"
proof -
  assume r: "0 \<le> r"
  have "0 \<le> rat_of_int (roundHalfEven (\<bar>r\<bar> / pow2 q)) * pow2 q" for q
    using roundHalfEven_nonneg [of "\<bar>r\<bar> / pow2 q"] pow2_pos [of q]
    by (simp add: less_imp_le)
  with r show ?thesis by (simp add: toDouble_def Let_def not_less)
qed

lemma exponentUp_ge: "k \<le> exponentUp a k"
proof (induction a k rule: exponentUp.induct)
  case (1 a k)
  show ?case
  proof (cases "a < 2 \<or> 1024 \<le> k")
    case True
    then show ?thesis by (subst exponentUp.simps) simp
  next
    case False
    with "1.IH" have "k + 1 \<le> exponentUp (a / 2) (k + 1)" by simp
    with False show ?thesis by (subst exponentUp.simps) simp
  qed
qed

lemma nat_bracket: "0 < n \<Longrightarrow> \<exists>e. 2 ^ e \<le> n \<and> n < 2 ^ (e + 1)" for n :: nat
  using ex_power_ivl1 [of 2 n] by auto

lemma toDouble_nat_exact:
  assumes "n < 2 ^ 53"
  shows "toDouble (of_nat n) = Fin (of_nat n)"
proof (cases "n = 0")
  case True
  then show ?thesis by (simp add: toDouble_def)
next
  case False
  then obtain e where e: "2 ^ e \<le> n" "n < 2 ^ (e + 1)" using nat_bracket [of n] by auto
  have e52: "e < 53"
  proof (rule power_less_imp_less_exp)
    show "(1::nat) < 2" by simp
    show "(2::nat) ^ e < 2 ^ 53" using e(1) assms by (rule le_less_trans)
  qed
  have p: "pow2 (int e) = 2 ^ e" "pow2 (int e + 1) = 2 ^ (e + 1)"
    by (simp_all add: pow2_def nat_add_distrib)
  have lo: "pow2 (int e) \<le> rat_of_nat n"
    unfolding p using e(1) by (metis of_nat_le_iff of_nat_numeral of_nat_power)
  have hi: "rat_of_nat n < pow2 (int e + 1)"
    unfolding p using e(2) by (metis of_nat_less_iff of_nat_numeral of_nat_power)
  have q: "pow2 (int e - 52) = 1 / 2 ^ (52 - e)"
    using e52 by (auto simp: pow2_def nat_diff_distrib)
  have m: "rat_of_nat n / pow2 (int e - 52) = of_int (int (n * 2 ^ (52 - e)))"
    unfolding q by simp
  have v: "rat_of_int (roundHalfEven (rat_of_nat n / pow2 (int e - 52))) * pow2 (int e - 52) = of_nat n"
    unfolding m roundHalfEven_of_int unfolding q by simp
  have "rat_of_nat n < 2 ^ 53"
    using assms by (metis of_nat_less_iff of_nat_numeral of_nat_power)
  also have "(2::rat) ^ 53 \<le> 2 ^ 1024" by (intro power_increasing) simp_all
  finally have small: "\<not> 2 ^ 1024 \<le> rat_of_nat n" by simp
  show ?thesis
    using toDouble_normal [OF lo hi] e52 small by (simp add: v Let_def)
qed

lemma toDouble_nat_integer:
  "toDouble (of_nat n) = PosInf \<or> (\<exists>m. toDouble (of_nat n) = Fin (of_nat m))"
proof (cases "n = 0")
  case True
  then show ?thesis by (auto simp: toDouble_def intro: exI [of _ 0])
next
  case False
  define a where "a = rat_of_nat n"
  define e where "e = binaryExponent a"
  have a1: "1 \<le> a" using False by (simp add: a_def)
  then have e0: "0 \<le> e" using exponentUp_ge [of 0 a] by (simp add: e_def binaryExponent_def)
  define R where "R = roundHalfEven (a / pow2 (e - 52))"
  have R0: "0 \<le> R" unfolding R_def using a1 pow2_pos [of "e - 52"]
    by (intro roundHalfEven_nonneg) (simp add: less_imp_le)
  have td: "toDouble (of_nat n) =
      (if 2 ^ 1024 \<le> of_int R * pow2 (e - 52) then PosInf else Fin (of_int R * pow2 (e - 52)))"
    using a1 e0 by (simp add: toDouble_def Let_def a_def [symmetric] e_def [symmetric] R_def max_def)
  have "\<exists>m. rat_of_int R * pow2 (e - 52) = of_nat m"
  proof (cases "52 \<le> e")
    case True
    then have "pow2 (e - 52) = of_nat (2 ^ nat (e - 52))" by (simp add: pow2_def)
    moreover have "rat_of_int R = of_nat (nat R)" using R0 by simp
    ultimately have "rat_of_int R * pow2 (e - 52) = of_nat (nat R * 2 ^ nat (e - 52))"
      by (simp only: of_nat_mult)
    then show ?thesis by blast
  next
    case False
    then have q: "pow2 (e - 52) = 1 / 2 ^ nat (52 - e)" by (simp add: pow2_def)
    have m: "a / pow2 (e - 52) = of_int (int (n * 2 ^ nat (52 - e)))"
      unfolding q a_def by simp
    have "rat_of_int R * pow2 (e - 52) = of_nat n"
      unfolding R_def m roundHalfEven_of_int unfolding q by simp
    then show ?thesis by blast
  qed
  with td show ?thesis by auto
qed

text \<open>Beyond the range: an infinity from \<open>2 ^ 1024\<close> on, zero up to \<open>2 ^ -1075\<close>.\<close>

lemma exponentUp_clip: "pow2 (1024 - k) \<le> a \<Longrightarrow> k \<le> 1024 \<Longrightarrow> exponentUp a k = 1024"
proof (induction a k rule: exponentUp.induct)
  case (1 a k)
  show ?case
  proof (cases "k = 1024")
    case True
    then show ?thesis by (subst exponentUp.simps) simp
  next
    case False
    with "1.prems" have lt: "k < 1024" by simp
    have "pow2 1 \<le> pow2 (1024 - k)" using lt by (intro pow2_mono) simp
    with "1.prems" have a2: "\<not> a < 2" by (simp add: pow2_powi)
    have "pow2 (1024 - k) = 2 * pow2 (1024 - (k + 1))"
      using pow2_Suc [of "1024 - (k + 1)"] by (simp add: algebra_simps)
    with "1.prems" have lo: "pow2 (1024 - (k + 1)) \<le> a / 2" by simp
    from lt a2 have c: "\<not> (a < 2 \<or> 1024 \<le> k)" by simp
    have "exponentUp (a / 2) (k + 1) = 1024"
      using c lo lt by (intro "1.IH") auto
    with c show ?thesis by (subst exponentUp.simps) simp
  qed
qed

lemma roundHalfEven_ge: "of_int k \<le> m \<Longrightarrow> k \<le> roundHalfEven m"
proof -
  assume "of_int k \<le> m"
  then have "k \<le> \<lfloor>m\<rfloor>" by (simp add: le_floor_iff)
  then show ?thesis by (auto simp: roundHalfEven_def Let_def)
qed

lemma toDouble_overflow:
  assumes "2 ^ 1024 \<le> r"
  shows "toDouble r = PosInf"
proof -
  have p: "pow2 1024 = 2 ^ 1024" "pow2 972 = 2 ^ 972" by (simp_all add: pow2_def)
  from assms have r1: "1 \<le> r" "0 < r"
    using one_le_power [of "2::rat" 1024] by simp_all
  have e: "binaryExponent r = 1024"
    using exponentUp_clip [of 0 r] assms r1 by (simp add: binaryExponent_def p)
  have "(2::rat) ^ 52 * 2 ^ 972 = 2 ^ 1024" by (simp add: power_add [symmetric])
  with assms have "rat_of_int (2 ^ 52) \<le> r / pow2 972"
    by (simp add: p le_divide_eq)
  then have "2 ^ 52 \<le> roundHalfEven (r / pow2 972)" by (rule roundHalfEven_ge)
  then have "rat_of_int (2 ^ 52) \<le> rat_of_int (roundHalfEven (r / pow2 972))"
    by (simp only: of_int_le_iff)
  then have "rat_of_int (2 ^ 52) * 2 ^ 972 \<le> rat_of_int (roundHalfEven (r / pow2 972)) * 2 ^ 972"
    by (rule mult_right_mono) simp
  moreover have "rat_of_int (2 ^ 52) * 2 ^ 972 = 2 ^ 1024" by (simp add: power_add [symmetric])
  ultimately have "2 ^ 1024 \<le> rat_of_int (roundHalfEven (r / pow2 972)) * pow2 972"
    by (simp only: p)
  with r1 e show ?thesis by (simp add: toDouble_def Let_def max_def)
qed

lemma exponentDown_clip:
  "a \<le> pow2 (- 1075 - k) \<Longrightarrow> - 1075 \<le> k \<Longrightarrow> exponentDown a k = - 1075"
proof (induction a k rule: exponentDown.induct)
  case (1 a k)
  show ?case
  proof (cases "k = - 1075")
    case True
    then show ?thesis by (subst exponentDown.simps) simp
  next
    case False
    with "1.prems" have lt: "- 1075 < k" by simp
    have "pow2 (- 1075 - k) \<le> pow2 (- 1)" using lt by (intro pow2_mono) simp
    with "1.prems" have a1: "\<not> 1 \<le> a" by (simp add: pow2_def)
    have "pow2 (- 1075 - (k - 1)) = 2 * pow2 (- 1075 - k)"
      using pow2_Suc [of "- 1075 - k"] by (simp add: algebra_simps)
    with "1.prems" have hi: "a * 2 \<le> pow2 (- 1075 - (k - 1))" by simp
    from lt a1 have c: "\<not> (1 \<le> a \<or> k \<le> - 1075)" by simp
    have "exponentDown (a * 2) (k - 1) = - 1075"
      using c hi lt by (intro "1.IH") auto
    with c show ?thesis by (subst exponentDown.simps) simp
  qed
qed

lemma toDouble_underflow:
  assumes "0 \<le> r" "r \<le> pow2 (- 1075)"
  shows "toDouble r = Fin 0"
proof (cases "r = 0")
  case True
  then show ?thesis by (simp add: toDouble_def)
next
  case False
  with assms have pos: "0 < r" by simp
  have "pow2 (- 1075) < 1" by (simp add: pow2_def)
  with assms have r1: "\<not> 1 \<le> r" by simp
  have e: "binaryExponent r = - 1075"
    using exponentDown_clip [of r 0] assms r1 by (simp add: binaryExponent_def)
  define y where "y = r / pow2 (- 1074)"
  have "pow2 (- 1075) = pow2 (- 1074) / 2" using pow2_Suc [of "- 1075"] by simp
  with assms pow2_pos [of "- 1074"] have x: "y \<le> 1 / 2"
    by (simp add: y_def divide_le_eq)
  have x0: "0 < y" using pos pow2_pos [of "- 1074"] by (simp add: y_def)
  have "\<lfloor>y\<rfloor> = 0"
  proof (rule floor_unique)
    show "rat_of_int 0 \<le> y" using x0 by simp
    show "y < rat_of_int 0 + 1" using x by simp
  qed
  with x have "roundHalfEven y = 0"
    by (simp add: roundHalfEven_def Let_def)
  then have "roundHalfEven (r / pow2 (- 1074)) = 0" by (simp only: y_def)
  with pos e show ?thesis by (simp add: toDouble_def Let_def max_def)
qed

section \<open>Properties of the runtime\<close>

lemma await_Inr: "m st = (Inr x, st1) \<Longrightarrow> await m f st = f x st1"
  by (simp add: await_def)

lemma await_Inl: "m st = (Inl e, st1) \<Longrightarrow> await m f st = (Inl e, st1)"
  by (simp add: await_def)

lemma await_InrE:
  assumes "await m f st = (Inr y, st')"
  obtains x st1 where "m st = (Inr x, st1)" and "f x st1 = (Inr y, st')"
  using assms by (auto simp: await_def split: prod.splits sum.splits)

lemma evaluate_Inr:
  "page_evaluate env (world st) = (Inr doc, w) \<Longrightarrow>
   evaluate env script st = (Inr (script doc), st\<lparr>world := w\<rparr>)"
  by (simp add: evaluate_def await_def external_def resolve_def)

lemma evaluate_InrE:
  assumes "evaluate env script st = (Inr v, st')"
  obtains doc where "page_evaluate env (world st) = (Inr doc, world st')" and "v = script doc"
    and "console st' = console st"
  using assms
  by (auto simp: evaluate_def await_def external_def resolve_def split: prod.splits sum.splits)

lemma tryCatch_Inr: "m st = (Inr x, st1) \<Longrightarrow> tryCatch m h st = (Inr x, st1)"
  by (simp add: tryCatch_def)

lemma tryCatch_Inl: "m st = (Inl e, st1) \<Longrightarrow> tryCatch m h st = h e st1"
  by (simp add: tryCatch_def)

lemma tryCatch_rethrow_InrD:
  "tryCatch m (\<lambda>e. await (consoleError (parts e)) (\<lambda>_. throw e)) st = (Inr y, st') \<Longrightarrow>
   m st = (Inr y, st')"
  by (auto simp: tryCatch_def await_def consoleError_def throw_def split: prod.splits sum.splits)

lemma quietD: "quiet m \<Longrightarrow> m st = (r, st') \<Longrightarrow> console st' = console st"
  by (auto simp: quiet_def dest: spec[of _ st])

lemma quiet_resolve: "quiet (resolve x)"
  by (simp add: quiet_def resolve_def)

lemma quiet_throw: "quiet (throw e)"
  by (simp add: quiet_def throw_def)

lemma quiet_external: "quiet (external f)"
  by (simp add: quiet_def external_def split: prod.splits)

lemma quiet_sleep: "quiet (sleep env ms)"
  by (simp add: quiet_def sleep_def)

lemma quiet_await: "quiet m \<Longrightarrow> (\<And>x. quiet (f x)) \<Longrightarrow> quiet (await m f)"
  unfolding quiet_def await_def
  by (auto split: prod.splits sum.splits) (metis snd_conv)+

lemma quiet_evaluate: "quiet (evaluate env script)"
  unfolding evaluate_def by (intro quiet_await quiet_external quiet_resolve)

section \<open>Properties of the retry runner\<close>

lemma backoffDelays_eq: "backoffDelays n d = map (\<lambda>k. d * 2 ^ k) [0..<n]"
proof (induction n arbitrary: d)
  case 0
  show ?case by simp
next
  case (Suc n)
  have "[0..<Suc n] = 0 # map Suc [0..<n]"
    by (simp add: upt_conv_Cons map_Suc_upt del: upt_Suc)
  then show ?case using Suc.IH[of "d * 2"] by (simp add: comp_def mult.assoc del: upt_Suc)
qed

lemma sorted_backoffDelays: "sorted (backoffDelays n d)"
proof (induction n arbitrary: d)
  case 0
  show ?case by simp
next
  case (Suc n)
  have "\<forall>x \<in> set (backoffDelays n (d * 2)). d \<le> x"
    by (auto simp: backoffDelays_eq)
  with Suc.IH show ?case by simp
qed

text \<open>The four ways through one turn of the loop.\<close>

lemma retryLoop_done:
  "\<not> i < retries \<Longrightarrow>
   retryLoop env operation retries i delay lastError st = (Inl lastError, st, [])"
  by simp

lemma retryLoop_success:
  "i < retries \<Longrightarrow> operation st = (Inr v, st') \<Longrightarrow>
   retryLoop env operation retries i delay lastError st = (Inr v, st', [Attempt (Inr v)])"
  by simp

lemma retryLoop_retry:
  "i < retries - 1 \<Longrightarrow> operation st = (Inl e, st') \<Longrightarrow>
   retryLoop env operation retries i delay lastError st =
     (case retryLoop env operation retries (i + 1) (delay * 2) e
             (snd (sleep env (of_nat delay) st')) of
        (r, st'', tr) \<Rightarrow> (r, st'', Attempt (Inl e) # Wait delay # tr))"
  by (subst retryLoop.simps) simp

lemma retryLoop_last:
  "i < retries \<Longrightarrow> \<not> i < retries - 1 \<Longrightarrow> operation st = (Inl e, st') \<Longrightarrow>
   retryLoop env operation retries i delay lastError st = (Inl e, st', [Attempt (Inl e)])"
  by (subst retryLoop.simps) simp

declare retryLoop.simps [simp del]





lemma failing_trace:
  "retryTrace stubEnv failing 3 1000 start =
     (Inl (Error [50]), \<lparr>console = [], world = 3\<rparr>,
      [Attempt (Inl (Error [48])), Wait 1000, Attempt (Inl (Error [49])), Wait 2000,
       Attempt (Inl (Error [50]))])"
  by (simp add: retryTrace_def retryLoop.simps failing_def stubEnv_def sleep_def start_def)



lemma recorded_observed:
  "operation st = (r, st1) \<Longrightarrow> recorded operation (observed l st) = (r, observed (l @ [Called]) st1)"
  by (cases st) (simp add: recorded_def observed_def)

lemma sleep_observed:
  "snd (sleep (recording env) ms (observed l st)) = observed (l @ [Timer ms]) (snd (sleep env ms st))"
  by (simp add: sleep_def recording_def observed_def)

lemma retryLoop_recorded:
  "retryLoop env operation retries i delay lastError st = (r, st', tr) \<Longrightarrow>
   retryLoop (recording env) (recorded operation) retries i delay lastError (observed l st) =
     (r, observed (l @ callsOf tr) st', tr)"
proof (induction env operation retries i delay lastError st arbitrary: r st' tr l
    rule: retryLoop.induct)
  case (1 env operation retries i delay lastError st)
  show ?case
  proof (cases "i < retries")
    case False
    with "1.prems" show ?thesis by (auto simp: retryLoop_done)
  next
    case True
    obtain res s1 where op: "operation st = (res, s1)" by (cases "operation st")
    note rop = recorded_observed [of operation st res s1 l, OF op]
    show ?thesis
    proof (cases res)
      case (Inr v)
      with op True "1.prems" have "r = Inr v" "st' = s1" "tr = [Attempt (Inr v)]"
        by (auto simp: retryLoop_success)
      with True rop Inr show ?thesis by (simp add: retryLoop_success)
    next
      case (Inl e0)
      show ?thesis
      proof (cases "i < retries - 1")
        case more: True
        obtain r2 s2 t2 where rec:
          "retryLoop env operation retries (i + 1) (delay * 2) e0
             (snd (sleep env (of_nat delay) s1)) = (r2, s2, t2)"
          by (metis prod_cases3)
        with "1.prems" op Inl more have eq: "r = r2" "st' = s2"
          "tr = Attempt (Inl e0) # Wait delay # t2"
          by (auto simp: retryLoop_retry)
        from "1.IH"(1)[OF True op[symmetric] Inl more rec,
            of "l @ [Called] @ [Timer (of_nat delay)]"]
        have "retryLoop (recording env) (recorded operation) retries (i + 1) (delay * 2) e0
            (observed (l @ [Called] @ [Timer (of_nat delay)]) (snd (sleep env (of_nat delay) s1))) =
          (r2, observed (l @ [Called] @ [Timer (of_nat delay)] @ callsOf t2) s2, t2)"
          by simp
        with more rop Inl eq show ?thesis
          by (simp add: retryLoop_retry sleep_observed)
      next
        case False
        with "1.prems" op Inl True have "r = Inl e0" "st' = s1" "tr = [Attempt (Inl e0)]"
          by (auto simp: retryLoop_last)
        with True False rop Inl show ?thesis by (simp add: retryLoop_last)
      qed
    qed
  qed
qed

lemma retryLoop_failed_calls:
  "retryLoop env operation retries i delay lastError st = (Inl e, st', tr) \<Longrightarrow>
   callsOf tr = backoffCalls (nat (retries - i)) delay"
proof (induction env operation retries i delay lastError st arbitrary: st' tr
    rule: retryLoop.induct)
  case (1 env operation retries i delay lastError st)
  show ?case
  proof (cases "i < retries")
    case False
    with "1.prems" show ?thesis by (simp add: retryLoop_done)
  next
    case True
    obtain res s1 where op: "operation st = (res, s1)" by (cases "operation st")
    show ?thesis
    proof (cases res)
      case (Inr w)
      with op True "1.prems" show ?thesis by (auto simp: retryLoop_success)
    next
      case (Inl e0)
      show ?thesis
      proof (cases "i < retries - 1")
        case more: True
        obtain r2 s2 t2 where rec:
          "retryLoop env operation retries (i + 1) (delay * 2) e0
             (snd (sleep env (of_nat delay) s1)) = (r2, s2, t2)"
          by (metis prod_cases3)
        with "1.prems" op Inl more have eq: "r2 = Inl e" "tr = Attempt (Inl e0) # Wait delay # t2"
          by (auto simp: retryLoop_retry)
        from "1.IH"(1)[OF True op[symmetric] Inl more rec[unfolded eq(1)]]
        have ih: "callsOf t2 = backoffCalls (nat (retries - (i + 1))) (delay * 2)" .
        obtain m where m: "nat (retries - (i + 1)) = Suc m"
          using more by (cases "nat (retries - (i + 1))") auto
        then have n: "nat (retries - i) = Suc (Suc m)" by linarith
        show ?thesis unfolding eq(2) n using ih unfolding m by simp
      next
        case False
        with "1.prems" op Inl True have "tr = [Attempt (Inl e)]"
          by (auto simp: retryLoop_last)
        moreover have "nat (retries - i) = Suc 0" using True False by auto
        ultimately show ?thesis by simp
      qed
    qed
  qed
qed

lemma timers_backoffCalls: "timers (backoffCalls n d) = map of_nat (backoffDelays (n - 1) d)"
  by (induction n d rule: backoffCalls.induct) simp_all

lemma backoffCalls_nonempty: "0 < n \<Longrightarrow> backoffCalls n d \<noteq> []"
  by (cases "(n, d)" rule: backoffCalls.cases) simp_all

lemma last_backoffCalls: "0 < n \<Longrightarrow> last (backoffCalls n d) = Called"
  by (induction n d rule: backoffCalls.induct) (simp_all add: backoffCalls_nonempty)

lemma count_backoffCalls: "length (filter (\<lambda>c. c = Called) (backoffCalls n d)) = n"
  by (induction n d rule: backoffCalls.induct) simp_all

lemma sorted_map_of_nat: "sorted xs \<Longrightarrow> sorted (map rat_of_nat xs)"
  by (induction xs) auto

lemma failing_run:
  "retryOperation stubEnv failing 3 1000 start = (Inl (Error [50]), \<lparr>console = [], world = 3\<rparr>)"
  using failing_trace by (simp add: retryOperation_def)

text \<open>
  Claim C8. Take any run of the runner that ends in failure, so that every attempt
  failed, and run it again with an observer in the world. The run ends in the same
  failure, with the same console and the same world, and what the observer has seen
  is: a call of the operation, a timer of \<open>delay\<close>, a call, a timer of \<open>2 * delay\<close>, and
  so on. So the timers set are \<open>delay\<close>, \<open>2 * delay\<close>, \<open>4 * delay\<close>, one fewer than the
  attempts and never decreasing; with two attempts or more, a timer of \<open>delay\<close> is set
  between the first call and the second; and the last thing that happens is the
  failed final call: no timer is set after it.
\<close>

theorem retryOperation_backoff:
  assumes "retryOperation env operation retries delay st = (Inl e, st')"
  shows "\<exists>st''. retryOperation (recording env) (recorded operation) retries delay (observed [] st) =
             (Inl e, st'') \<and>
           console st'' = console st' \<and> snd (world st'') = world st' \<and>
           fst (world st'') = backoffCalls (nat retries) delay \<and>
           timers (fst (world st'')) = map (\<lambda>k. of_nat delay * 2 ^ k) [0..<nat retries - 1] \<and>
           sorted (timers (fst (world st''))) \<and>
           length (filter (\<lambda>c. c = Called) (fst (world st''))) = nat retries \<and>
           (2 \<le> retries \<longrightarrow> take 3 (fst (world st'')) = [Called, Timer (of_nat delay), Called]) \<and>
           (1 \<le> retries \<longrightarrow> last (fst (world st'')) = Called)"
proof -
  obtain r s1 tr where loop: "retryLoop env operation retries 0 delay Undefined st = (r, s1, tr)"
    by (metis prod_cases3)
  with assms have rs: "r = Inl e" "s1 = st'"
    by (simp_all add: retryOperation_def retryTrace_def)
  from retryLoop_failed_calls [OF loop [unfolded rs]]
  have c: "callsOf tr = backoffCalls (nat retries) delay" by simp
  let ?st = "observed (backoffCalls (nat retries) delay) st'"
  from retryLoop_recorded [OF loop [unfolded rs], of "[]"] c
  have run: "retryOperation (recording env) (recorded operation) retries delay (observed [] st) =
      (Inl e, ?st)"
    by (simp add: retryOperation_def retryTrace_def)
  have w: "fst (world ?st) = backoffCalls (nat retries) delay" "console ?st = console st'"
    "snd (world ?st) = world st'"
    by (simp_all add: observed_def)
  have t: "timers (backoffCalls (nat retries) delay) =
      map (\<lambda>k. of_nat delay * 2 ^ k) [0..<nat retries - 1]"
    by (simp add: timers_backoffCalls backoffDelays_eq)
  have s: "sorted (timers (backoffCalls (nat retries) delay))"
    unfolding timers_backoffCalls by (intro sorted_map_of_nat sorted_backoffDelays)
  have n: "length (filter (\<lambda>c. c = Called) (backoffCalls (nat retries) delay)) = nat retries"
    by (rule count_backoffCalls)
  have f: "take 3 (backoffCalls (nat retries) delay) = [Called, Timer (of_nat delay), Called]"
    if "2 \<le> retries"
  proof -
    define m where "m = nat retries - 2"
    with that have "nat retries = Suc (Suc m)" by simp
    then show ?thesis by (cases m) simp_all
  qed
  have l: "last (backoffCalls (nat retries) delay) = Called" if "1 \<le> retries"
    using that by (intro last_backoffCalls) simp
  from run w t s n f l show ?thesis by (intro exI [of _ ?st]) auto
qed

theorem retryOperation_backoff_witness:
  "\<exists>st''. retryOperation (recording stubEnv) (recorded failing) 3 1000 (observed [] start) =
       (Inl (Error [50]), st'') \<and>
     fst (world st'') = [Called, Timer 1000, Called, Timer 2000, Called]"
proof -
  have b: "backoffCalls (nat 3) 1000 = [Called, Timer 1000, Called, Timer 2000, Called]"
    by (simp add: eval_nat_numeral)
  from retryOperation_backoff [OF failing_run] show ?thesis unfolding b by blast
qed

text \<open>
  Claim C10. With \<open>retries \<le> 0\<close> the loop body never runs: the operation is not called,
  nothing is waited for, the state is unchanged, and what is thrown is the \<open>undefined\<close>
  that \<open>lastError\<close> was declared with.
\<close>

theorem retryOperation_no_retries:
  assumes "retries \<le> 0"
  shows "retryTrace env operation retries delay st = (Inl Undefined, st, []) \<and>
         retryOperation env operation retries delay st = (Inl Undefined, st)"
  using assms by (simp add: retryOperation_def retryTrace_def retryLoop_done)

theorem retryOperation_no_retries_witness:
  "retryTrace stubEnv flaky 0 1000 start = (Inl Undefined, start, []) \<and>
   retryOperation stubEnv flaky (- 1) 1000 start = (Inl Undefined, start)"
  using retryOperation_no_retries[of 0 stubEnv flaky 1000 start]
    retryOperation_no_retries[of "- 1" stubEnv flaky 1000 start] by simp

subsection \<open>What a retried operation returns and writes\<close>

lemma retryLoop_Inr_op:
  "retryLoop env operation retries i delay lastError st = (Inr v, st', tr) \<Longrightarrow>
   \<exists>s. operation s = (Inr v, st')"
proof (induction env operation retries i delay lastError st arbitrary: tr
    rule: retryLoop.induct)
  case (1 env operation retries i delay lastError st)
  show ?case using "1.prems" "1.IH"
    apply (subst (asm) retryLoop.simps)
    apply (auto split: if_splits prod.splits sum.splits)
    done
qed

lemma retryOperation_InrE:
  assumes "retryOperation env operation retries delay st = (Inr v, st')"
  obtains s where "operation s = (Inr v, st')"
  using assms retryLoop_Inr_op
  by (fastforce simp: retryOperation_def retryTrace_def split: prod.splits)

lemma retry_evaluate_InrE:
  assumes "retryOperation env (evaluate env script) retries delay st = (Inr v, st')"
  obtains w doc where "page_evaluate env w = (Inr doc, world st')" and "v = script doc"
proof -
  from assms obtain s where "evaluate env script s = (Inr v, st')"
    by (rule retryOperation_InrE)
  then show ?thesis by (elim evaluate_InrE) (rule that)
qed

lemma quiet_retryLoop:
  "quiet operation \<Longrightarrow>
   console (fst (snd (retryLoop env operation retries i delay lastError st))) = console st"
proof (induction env operation retries i delay lastError st rule: retryLoop.induct)
  case (1 env operation retries i delay lastError st)
  show ?case
  proof (cases "i < retries")
    case False
    then show ?thesis by (simp add: retryLoop_done)
  next
    case True
    obtain res s1 where op: "operation st = (res, s1)" by (cases "operation st")
    have c1: "console s1 = console st" using quietD[OF "1.prems" op] .
    show ?thesis
    proof (cases res)
      case (Inr v)
      with op True c1 show ?thesis by (simp add: retryLoop_success)
    next
      case (Inl e)
      show ?thesis
      proof (cases "i < retries - 1")
        case more: True
        obtain r2 s2 t2 where rec:
          "retryLoop env operation retries (i + 1) (delay * 2) e
             (snd (sleep env (of_nat delay) s1)) = (r2, s2, t2)"
          by (metis prod_cases3)
        have "console s2 = console (snd (sleep env (of_nat delay) s1))"
          using "1.IH"(1)[OF True op[symmetric] Inl more "1.prems"] by (simp add: rec)
        also have "\<dots> = console s1" by (simp add: sleep_def)
        finally show ?thesis using op Inl more c1
          by (simp add: retryLoop_retry rec)
      next
        case False
        with op Inl True c1 show ?thesis by (simp add: retryLoop_last)
      qed
    qed
  qed
qed

lemma quiet_retry:
  assumes "quiet operation"
  shows "quiet (retryOperation env operation retries delay)"
  unfolding quiet_def
proof
  fix st
  obtain r s t where rec: "retryLoop env operation retries 0 delay Undefined st = (r, s, t)"
    by (metis prod_cases3)
  with quiet_retryLoop[OF assms, of env retries 0 delay Undefined st]
  show "console (snd (retryOperation env operation retries delay st)) = console st"
    by (simp add: retryOperation_def retryTrace_def)
qed

section \<open>Properties of the scraper\<close>

subsection \<open>The post-type classifier\<close>

lemma videoCarousel_signals:
  "hasVideo videoCarousel \<and> hasNextLabel videoCarousel \<and> onReelRoute videoCarousel"
  by (simp add: videoCarousel_def hasVideo_def hasNextLabel_def onReelRoute_def ascii_def dq_def)

lemma emptyDocument_signals:
  "\<not> hasVideo emptyDocument \<and> \<not> hasNextButton emptyDocument \<and> \<not> hasInteractiveControl emptyDocument"
  by (simp add: emptyDocument_def hasVideo_def hasNextButton_def hasInteractiveControl_def)

text \<open>
  Claim C3. On an initialised scraper, when the page hands over its document, both
  classifiers decide in the same fixed order: a \<open>video\<close> element makes the post a
  video; otherwise a "next" control makes it a carousel; otherwise the reel signal
  (a generic interactive control in index.ts, the reel route in part_000) makes it a
  reel; otherwise it is an image.
\<close>

theorem determinePostType_precedence:
  assumes "page sc \<noteq> None" and "page_evaluate env (world st) = (Inr doc, w)"
  shows "determinePostType env sc st =
           (Inr (if hasVideo doc then Video
                 else if hasNextButton doc then Carousel
                 else if hasInteractiveControl doc then Reel
                 else Image), st\<lparr>world := w\<rparr>) \<and>
         determinePostType_part env sc st =
           (Inr (if hasVideo doc then Video
                 else if hasNextLabel doc then Carousel
                 else if onReelRoute doc then Reel
                 else Image), st\<lparr>world := w\<rparr>)"
  using assms
  by (auto simp: determinePostType_def determinePostType_part_def evaluate_Inr
      postTypeScript_def postTypeScript_part_def hasVideo_def hasNextButton_def
      hasNextLabel_def hasInteractiveControl_def onReelRoute_def)

theorem determinePostType_precedence_witness:
  "determinePostType stubEnv launched start = (Inr Image, start) \<and>
   determinePostType_part (stubEnv\<lparr>page_evaluate := (\<lambda>w. (Inr videoCarousel, w))\<rparr>) launched start
     = (Inr Video, start)"
proof -
  have p: "page launched \<noteq> None" by (simp add: launched_def)
  have e1: "page_evaluate stubEnv (world start) = (Inr emptyDocument, world start)"
    by (simp add: stubEnv_def)
  have e2: "page_evaluate (stubEnv\<lparr>page_evaluate := (\<lambda>w. (Inr videoCarousel, w))\<rparr>) (world start)
      = (Inr videoCarousel, world start)"
    by simp
  show ?thesis
    using determinePostType_precedence[OF p e1] determinePostType_precedence[OF p e2]
      videoCarousel_signals emptyDocument_signals
    by simp
qed

subsection \<open>\<open>close\<close>\<close>

text \<open>
  Claim C9, as amended. \<open>close\<close> on a scraper that holds no browser calls nothing and
  changes nothing. On a scraper that holds a browser, closed before or not, it is the
  browser's own \<open>close\<close>, called once more: the method keeps no note of a close and never
  resets the field. So it is a no-op there when that call is one.
\<close>

theorem close_delegates:
  "(browser sc = None \<longrightarrow> close env sc st = (Inr (), st)) \<and>
   (\<forall>b. browser sc = Some b \<longrightarrow> close env sc st = external (browser_close env) st) \<and>
   (\<forall>b. browser sc = Some b \<and> browser_close env (world st) = (Inr (), world st) \<longrightarrow>
      close env sc st = (Inr (), st))"
  by (auto simp: close_def resolve_def external_def)

theorem close_delegates_witness:
  "close stubEnv newScraper start = (Inr (), start) \<and>
   close stubEnv launched start = (Inr (), start)"
proof -
  have "browser newScraper = None" by (simp add: newScraper_def)
  moreover have "browser launched = Some 0 \<and> browser_close stubEnv (world start) = (Inr (), world start)"
    by (simp add: launched_def stubEnv_def)
  ultimately show ?thesis
    using close_delegates[of newScraper stubEnv start] close_delegates[of launched stubEnv start]
    by blast
qed

text \<open>
  The claim as stated fails with a browser whose \<open>close\<close> rejects once it is closed: the
  first \<open>close\<close> of a launched scraper succeeds, the second rejects.
\<close>

theorem close_twice_counterexample:
  "fst (close strictEnv launched \<lparr>console = [], world = True\<rparr>) = Inr () \<and>
   fst (close strictEnv launched (snd (close strictEnv launched \<lparr>console = [], world = True\<rparr>)))
     = Inl (Error (ascii ''Connection closed''))"
  by (simp add: close_def launched_def external_def strictEnv_def)

subsection \<open>The hashtag extractor\<close>

lemma hashtagChar_not_hash: "isHashtagChar c \<Longrightarrow> c \<noteq> 35"
  by (auto simp: isHashtagChar_def isWordChar_def)

lemma takeWhile_nonempty: "takeWhile P cs \<noteq> [] \<longleftrightarrow> cs \<noteq> [] \<and> P (hd cs)"
  by (cases cs) auto

lemma hashtagTokens_Cons: "hashtagTokens (c # cs) = tokenAt (c # cs) @ hashtagTokens cs"
  by (simp add: hashtagTokens_def)

lemma hashtagTokens_skip:
  "\<forall>c \<in> set run. isHashtagChar c \<Longrightarrow> hashtagTokens (run @ rest) = hashtagTokens rest"
proof (induction run)
  case Nil
  show ?case by simp
next
  case (Cons r run)
  then have "r \<noteq> 35" using hashtagChar_not_hash by auto
  then have "tokenAt (r # run @ rest) = []" by (simp add: tokenAt_def)
  with Cons show ?case by (simp add: hashtagTokens_Cons)
qed

lemma extractHashtags_tokens: "extractHashtags s = hashtagTokens s"
proof (induction s rule: extractHashtags.induct)
  case 1
  show ?case by (simp add: hashtagTokens_def tokenAt_def)
next
  case (2 c cs)
  show ?case
  proof (cases "c = 35 \<and> takeWhile isHashtagChar cs \<noteq> []")
    case True
    have "hashtagTokens cs = hashtagTokens (takeWhile isHashtagChar cs @ dropWhile isHashtagChar cs)"
      by simp
    also have "\<dots> = hashtagTokens (dropWhile isHashtagChar cs)"
      by (rule hashtagTokens_skip) (auto dest: set_takeWhileD)
    finally have skip: "hashtagTokens cs = hashtagTokens (dropWhile isHashtagChar cs)" .
    from True have "tokenAt (c # cs) = [c # takeWhile isHashtagChar cs]"
      by (simp add: tokenAt_def takeWhile_nonempty)
    with True 2 skip show ?thesis by (simp add: hashtagTokens_Cons)
  next
    case False
    then have "tokenAt (c # cs) = []"
      by (auto simp: tokenAt_def takeWhile_nonempty)
    with False 2 show ?thesis by (auto simp: hashtagTokens_Cons)
  qed
qed

lemma extractHashtags_none:
  "(\<nexists>pre c rest. s = pre @ 35 # c # rest \<and> isHashtagChar c) \<Longrightarrow> extractHashtags s = []"
proof (induction s rule: extractHashtags.induct)
  case 1
  show ?case by simp
next
  case (2 c cs)
  have no: "\<not> (c = 35 \<and> takeWhile isHashtagChar cs \<noteq> [])"
  proof
    assume a: "c = 35 \<and> takeWhile isHashtagChar cs \<noteq> []"
    then obtain d ds where "cs = d # ds" "isHashtagChar d"
      by (cases cs) (auto split: if_splits)
    with a have "c # cs = [] @ 35 # d # ds \<and> isHashtagChar d" by simp
    with "2.prems" show False by blast
  qed
  have "\<nexists>pre d rest. cs = pre @ 35 # d # rest \<and> isHashtagChar d"
  proof
    assume "\<exists>pre d rest. cs = pre @ 35 # d # rest \<and> isHashtagChar d"
    then obtain pre d rest where "cs = pre @ 35 # d # rest" "isHashtagChar d" by blast
    then have "c # cs = (c # pre) @ 35 # d # rest \<and> isHashtagChar d" by simp
    with "2.prems" show False by blast
  qed
  with "2.IH"(2) no show ?case by auto
qed

lemma extractHashtags_shape:
  "t \<in> set (extractHashtags s) \<Longrightarrow>
   \<exists>w. t = 35 # w \<and> w \<noteq> [] \<and> (\<forall>c \<in> set w. isHashtagChar c)"
proof (induction s rule: extractHashtags.induct)
  case 1
  then show ?case by simp
next
  case (2 c cs)
  then show ?case
    by (auto split: if_splits dest: set_takeWhileD)
qed

lemma extractHashtags_example:
  "extractHashtags (ascii ''#a #b #a'') = [ascii ''#a'', ascii ''#b'', ascii ''#a'']"
  by (simp add: ascii_def isHashtagChar_def isWordChar_def)

text \<open>
  Claim C7. For every text the extractor returns the hashtag tokens of the text, one
  for each \<open>#\<close> that a character of the class follows, in the order of their places and
  with repetitions; a text with no such place gives the empty list; each token is a
  \<open>#\<close> and one character or more of the class (a word character or a code unit from
  U+0590 to U+05FF); and \<open>#a #b #a\<close> gives \<open>#a\<close>, \<open>#b\<close>, \<open>#a\<close>. The function is total: it
  is defined by a terminating recursion and has no error result.
\<close>

theorem extractHashtags_all_tokens:
  "extractHashtags s = hashtagTokens s \<and>
   ((\<nexists>pre c rest. s = pre @ 35 # c # rest \<and> isHashtagChar c) \<longrightarrow> extractHashtags s = []) \<and>
   (\<forall>t \<in> set (extractHashtags s). \<exists>w. t = 35 # w \<and> w \<noteq> [] \<and> (\<forall>c \<in> set w. isHashtagChar c)) \<and>
   extractHashtags (ascii ''#a #b #a'') = [ascii ''#a'', ascii ''#b'', ascii ''#a'']"
  using extractHashtags_tokens extractHashtags_none extractHashtags_shape extractHashtags_example
  by blast

theorem extractHashtags_all_tokens_witness:
  "extractHashtags (ascii ''no tags # here'') = [] \<and>
   extractHashtags (ascii ''#a #b #a'') = hashtagTokens (ascii ''#a #b #a'')"
proof -
  have "extractHashtags (ascii ''no tags # here'') = []"
    by (simp add: ascii_def isHashtagChar_def isWordChar_def)
  then show ?thesis
    using extractHashtags_all_tokens[of "ascii ''#a #b #a''"] by simp
qed

subsection \<open>The count parsers\<close>

lemma takeWhile_stop:
  "\<forall>x \<in> set xs. P x \<Longrightarrow> r = [] \<or> \<not> P (hd r) \<Longrightarrow>
   takeWhile P (xs @ r) = xs \<and> dropWhile P (xs @ r) = r"
  by (cases r) (auto simp: takeWhile_append dropWhile_append)

lemma digit_not_space: "isDigit c \<Longrightarrow> \<not> isWhiteSpace c"
  by (auto simp: isDigit_def isWhiteSpace_def)

lemma signOf_digit: "isDigit c \<Longrightarrow> signOf (c # cs) = (False, c # cs)"
  by (auto simp: isDigit_def)

lemma exponentOf_none: "u = [] \<or> (hd u \<noteq> 101 \<and> hd u \<noteq> 69) \<Longrightarrow> exponentOf u = 0"
  by (cases u) auto

lemma no_infinity: "isDigit d \<Longrightarrow> \<not> prefix (ascii ''Infinity'') (d # cs)"
  by (simp add: ascii_def isDigit_def)

lemma parseFloat_after_digits:
  assumes ds: "ds \<noteq> []" "\<forall>c \<in> set ds. isDigit c" and r: "r = [] \<or> \<not> isDigit (hd r)"
  shows "parseFloat (ds @ r) =
     toDouble ((of_nat (digitsValue ds) +
           of_nat (digitsValue (if r \<noteq> [] \<and> hd r = 46 then takeWhile isDigit (tl r) else [])) /
           10 ^ length (if r \<noteq> [] \<and> hd r = 46 then takeWhile isDigit (tl r) else [])) *
          pow10 (exponentOf (if r \<noteq> [] \<and> hd r = 46 then dropWhile isDigit (tl r) else r)))"
proof -
  obtain d ds' where d: "ds = d # ds'" using ds(1) by (cases ds) auto
  have dd: "isDigit d" using ds(2) d by simp
  have ws: "dropWhile isWhiteSpace (ds @ r) = ds @ r"
    using dd d by (simp add: digit_not_space)
  have sg: "signOf (ds @ r) = (False, ds @ r)"
    using dd d by (auto simp: isDigit_def)
  have ni: "\<not> prefix (ascii ''Infinity'') (ds @ r)" "\<not> prefix (ascii ''Infinity'') ds"
    using no_infinity [OF dd] d by simp_all
  have tw: "takeWhile isDigit (ds @ r) = ds" "dropWhile isDigit (ds @ r) = r"
    using takeWhile_stop[OF ds(2) r] by auto
  have tw0: "takeWhile isDigit ds = ds" "dropWhile isDigit ds = []"
    using ds(2) by auto
  have ws0: "dropWhile isWhiteSpace ds = ds" "signOf ds = (False, ds)"
    using dd d by (auto simp: digit_not_space isDigit_def)
  show ?thesis
    using ds(1) ni by (cases "r = []") (simp_all add: parseFloat_def ws sg tw tw0 ws0 Let_def)
qed

lemma parseFloat_decimal:
  assumes ds: "ds \<noteq> []" "\<forall>c \<in> set ds. isDigit c" and fs: "\<forall>c \<in> set fs. isDigit c"
    and u: "u = [] \<or> (\<not> isDigit (hd u) \<and> hd u \<noteq> 46 \<and> hd u \<noteq> 101 \<and> hd u \<noteq> 69)"
  shows "parseFloat (decimalText ds fs @ u) = toDouble (decimalValue ds fs)"
proof -
  have u': "u = [] \<or> \<not> isDigit (hd u)" using u by auto
  have twf: "takeWhile isDigit (fs @ u) = fs" "dropWhile isDigit (fs @ u) = u"
    using takeWhile_stop[OF fs u'] by auto
  have ex: "exponentOf u = 0" using u by (intro exponentOf_none) auto
  show ?thesis
  proof (cases "fs = []")
    case True
    have nd: "\<not> (u \<noteq> [] \<and> hd u = 46)" using u by auto
    have "parseFloat (ds @ u) = toDouble (decimalValue ds [])"
      using parseFloat_after_digits[OF ds u'] nd ex
      by (simp add: decimalValue_def pow10_def digitsValue_def)
    with True show ?thesis by (simp add: decimalText_def)
  next
    case False
    have r: "46 # fs @ u = [] \<or> \<not> isDigit (hd (46 # fs @ u))" by (simp add: isDigit_def)
    have "parseFloat (ds @ 46 # fs @ u) = toDouble (decimalValue ds fs)"
      using parseFloat_after_digits[OF ds r] twf ex
      by (simp add: decimalValue_def pow10_def)
    with False show ?thesis by (simp add: decimalText_def)
  qed
qed

lemma decimalText_digitOrDot: "\<forall>c \<in> set ds. isDigit c \<Longrightarrow> \<forall>c \<in> set fs. isDigit c \<Longrightarrow>
   \<forall>c \<in> set (decimalText ds fs). isDigitOrDot c"
  by (auto simp: decimalText_def isDigitOrDot_def)

lemma parseCount_decimal:
  assumes ds: "ds \<noteq> []" "\<forall>c \<in> set ds. isDigit c" and fs: "\<forall>c \<in> set fs. isDigit c"
    and u: "u \<in> {[], ascii ''k'', ascii ''m'', ascii ''b''}"
    and n: "filter (\<lambda>c. c \<noteq> 44) (toLowerCase s) = decimalText ds fs @ u"
  shows "parseCount s =
     (if u = [] then toDouble (decimalValue ds fs)
      else multiply (toDouble (decimalValue ds fs)) (unitFactor u))"
proof -
  have u': "u = [] \<or> \<not> isDigitOrDot (hd u)"
    using u by (auto simp: ascii_def isDigitOrDot_def isDigit_def)
  have tw: "takeWhile isDigitOrDot (decimalText ds fs @ u) = decimalText ds fs"
    "dropWhile isDigitOrDot (decimalText ds fs @ u) = u"
    using takeWhile_stop[OF decimalText_digitOrDot[OF ds(2) fs] u'] by auto
  have ne: "decimalText ds fs \<noteq> []" using ds(1) by (simp add: decimalText_def)
  have pf: "parseFloat (decimalText ds fs) = toDouble (decimalValue ds fs)"
    using parseFloat_decimal[OF ds fs, of "[]"] by simp
  have mc: "matchCount (decimalText ds fs @ u) =
      Some (decimalText ds fs, if u = [] then None else Some (hd u))"
    using u unfolding matchCount_def tw by (auto simp: ne ascii_def)
  from u show ?thesis
    by (auto simp: parseCount_def n mc pf multipliers_def unitFactor_def ascii_def)
qed

lemma parseCount_plain:
  assumes "ds \<noteq> []" "\<forall>c \<in> set ds. isDigit c" "\<forall>c \<in> set fs. isDigit c"
    and "filter (\<lambda>c. c \<noteq> 44) (toLowerCase s) = decimalText ds fs"
  shows "parseCount s = toDouble (decimalValue ds fs)"
  using parseCount_decimal [of ds fs "[]" s] assms by simp

lemma parseCount_unit:
  assumes "ds \<noteq> []" "\<forall>c \<in> set ds. isDigit c" "\<forall>c \<in> set fs. isDigit c"
    and "u \<in> {ascii ''k'', ascii ''m'', ascii ''b''}"
    and "filter (\<lambda>c. c \<noteq> 44) (toLowerCase s) = decimalText ds fs @ u"
  shows "parseCount s = multiply (toDouble (decimalValue ds fs)) (unitFactor u)"
proof -
  from assms(4) have "u \<noteq> []" by (auto simp: ascii_def)
  with parseCount_decimal [of ds fs u s] assms show ?thesis by simp
qed

lemma parseCount_overflow:
  assumes "ds \<noteq> []" "\<forall>c \<in> set ds. isDigit c" "\<forall>c \<in> set fs. isDigit c"
    and "filter (\<lambda>c. c \<noteq> 44) (toLowerCase s) = decimalText ds fs"
    and "2 ^ 1024 \<le> decimalValue ds fs"
  shows "parseCount s = PosInf"
  using parseCount_plain [OF assms(1-4)] toDouble_overflow [OF assms(5)] by simp

lemma rat_of_nat_less_2_53: "rat_of_nat n < 2 ^ 53 \<Longrightarrow> n < 2 ^ 53"
  by (metis of_nat_less_iff of_nat_numeral of_nat_power)

lemma multiply_nat_exact:
  assumes "n * k < 2 ^ 53" "0 < k"
  shows "multiply (toDouble (of_nat n)) (of_nat k) = Fin (of_nat (n * k))"
proof -
  from assms have "n \<le> n * k" by simp
  then have "n < 2 ^ 53" using assms(1) by (rule le_less_trans)
  then have "toDouble (of_nat n) = Fin (of_nat n)" by (rule toDouble_nat_exact)
  then have "multiply (toDouble (of_nat n)) (of_nat k) = toDouble (of_nat (n * k))" by simp
  with assms show ?thesis by (simp only: toDouble_nat_exact)
qed

lemma unitFactor_cases:
  "u \<in> {ascii ''k'', ascii ''m'', ascii ''b''} \<Longrightarrow>
   unitFactor u = of_nat 1000 \<or> unitFactor u = of_nat 1000000 \<or> unitFactor u = of_nat 1000000000"
  by (auto simp: unitFactor_def)

lemma decimalValue_whole: "decimalValue ds [] = of_nat (digitsValue ds)"
  by (simp add: decimalValue_def digitsValue_def)

lemma multiply_unit_exact:
  assumes u: "u \<in> {ascii ''k'', ascii ''m'', ascii ''b''}"
    and b: "of_nat n * unitFactor u < 2 ^ 53"
  shows "multiply (toDouble (of_nat n)) (unitFactor u) = Fin (of_nat n * unitFactor u)"
proof -
  from unitFactor_cases [OF u] obtain k where k: "unitFactor u = of_nat k" "0 < k" by auto
  from b have "rat_of_nat (n * k) < 2 ^ 53" by (simp add: k)
  then have "n * k < 2 ^ 53" by (rule rat_of_nat_less_2_53)
  from multiply_nat_exact [OF this k(2)] show ?thesis by (simp add: k)
qed

lemma parseCount_whole_exact:
  assumes ds: "ds \<noteq> []" "\<forall>c \<in> set ds. isDigit c"
    and u: "u \<in> {[], ascii ''k'', ascii ''m'', ascii ''b''}"
    and n: "filter (\<lambda>c. c \<noteq> 44) (toLowerCase s) = ds @ u"
    and b: "of_nat (digitsValue ds) * unitFactor u < 2 ^ 53"
  shows "parseCount s = Fin (of_nat (digitsValue ds) * unitFactor u)"
proof (cases "u = []")
  case True
  have "parseCount s = toDouble (of_nat (digitsValue ds))"
    using parseCount_plain [OF ds, of "[]" s] n True
    by (simp add: decimalText_def decimalValue_whole)
  moreover have "digitsValue ds < 2 ^ 53"
    using b True by (intro rat_of_nat_less_2_53) (simp add: unitFactor_def ascii_def)
  ultimately show ?thesis using True
    by (simp add: toDouble_nat_exact unitFactor_def ascii_def)
next
  case False
  with u have u': "u \<in> {ascii ''k'', ascii ''m'', ascii ''b''}" by simp
  have "parseCount s = multiply (toDouble (of_nat (digitsValue ds))) (unitFactor u)"
    using parseCount_unit [OF ds _ u', of "[]" s] n
    by (simp add: decimalText_def decimalValue_whole)
  with multiply_unit_exact [OF u' b] show ?thesis by simp
qed

lemma isInteger_of_nat: "isInteger (Fin (of_nat m))"
proof -
  have "rat_of_nat m = rat_of_int (int m)" by simp
  then show ?thesis by (simp only: isInteger.simps floor_of_int)
qed

lemma multiply_nat_integer:
  assumes "x = PosInf \<or> (\<exists>m. x = Fin (of_nat m))" "0 < k"
  shows "multiply x (of_nat k) = PosInf \<or> (\<exists>m. multiply x (of_nat k) = Fin (of_nat m))"
proof -
  from assms(1) show ?thesis
  proof
    assume "x = PosInf"
    with assms(2) show ?thesis by simp
  next
    assume "\<exists>m. x = Fin (of_nat m)"
    then obtain m where "x = Fin (of_nat m)" by blast
    then have "multiply x (of_nat k) = toDouble (of_nat (m * k))" by simp
    with toDouble_nat_integer [of "m * k"] show ?thesis by simp
  qed
qed

lemma parseCount_whole:
  assumes ds: "ds \<noteq> []" "\<forall>c \<in> set ds. isDigit c"
    and u: "u \<in> {[], ascii ''k'', ascii ''m'', ascii ''b''}"
    and n: "filter (\<lambda>c. c \<noteq> 44) (toLowerCase s) = ds @ u"
  shows "parseCount s = PosInf \<or> isInteger (parseCount s)"
proof -
  have v: "toDouble (of_nat (digitsValue ds)) = PosInf \<or>
      (\<exists>m. toDouble (of_nat (digitsValue ds)) = Fin (of_nat m))"
    by (rule toDouble_nat_integer)
  have "parseCount s = PosInf \<or> (\<exists>m. parseCount s = Fin (of_nat m))"
  proof (cases "u = []")
    case True
    have "parseCount s = toDouble (of_nat (digitsValue ds))"
      using parseCount_plain [OF ds, of "[]" s] n True
      by (simp add: decimalText_def decimalValue_whole)
    with v show ?thesis by simp
  next
    case False
    with u have u': "u \<in> {ascii ''k'', ascii ''m'', ascii ''b''}" by simp
    have p: "parseCount s = multiply (toDouble (of_nat (digitsValue ds))) (unitFactor u)"
      using parseCount_unit [OF ds _ u', of "[]" s] n
      by (simp add: decimalText_def decimalValue_whole)
    from unitFactor_cases [OF u'] obtain k where k: "unitFactor u = of_nat k" "0 < k" by auto
    from multiply_nat_integer [OF v k(2)] show ?thesis unfolding p k(1) .
  qed
  then show ?thesis using isInteger_of_nat by auto
qed

lemma matchCount_SomeD:
  "matchCount n = Some (num, unit) \<Longrightarrow>
   \<exists>u. n = num @ u \<and> num \<noteq> [] \<and> (\<forall>c \<in> set num. isDigitOrDot c) \<and>
       u \<in> {[], ascii ''k'', ascii ''m'', ascii ''b''}"
proof -
  assume m: "matchCount n = Some (num, unit)"
  have split: "n = takeWhile isDigitOrDot n @ dropWhile isDigitOrDot n" by simp
  from m have num: "num = takeWhile isDigitOrDot n" "num \<noteq> []"
    by (auto simp: matchCount_def Let_def split: if_splits list.splits)
  from m have "dropWhile isDigitOrDot n \<in> {[], [107], [109], [98]}"
    by (auto simp: matchCount_def Let_def split: if_splits list.splits)
  then have "dropWhile isDigitOrDot n \<in> {[], ascii ''k'', ascii ''m'', ascii ''b''}"
    by (simp add: ascii_def)
  moreover have "\<forall>c \<in> set num. isDigitOrDot c"
    unfolding num(1) by (auto dest: set_takeWhileD)
  ultimately show ?thesis using split num by metis
qed

lemma parseCount_no_match:
  assumes "\<nexists>num u. filter (\<lambda>c. c \<noteq> 44) (toLowerCase s) = num @ u \<and> num \<noteq> [] \<and>
            (\<forall>c \<in> set num. isDigitOrDot c) \<and> u \<in> {[], ascii ''k'', ascii ''m'', ascii ''b''}"
  shows "parseCount s = Fin 0"
proof (cases "matchCount (filter (\<lambda>c. c \<noteq> 44) (toLowerCase s))")
  case None
  then show ?thesis by (simp add: parseCount_def)
next
  case (Some a)
  obtain num unit where "a = (num, unit)" by (cases a)
  with Some matchCount_SomeD assms show ?thesis by blast
qed

lemma includes_single: "includes_str s [c] \<longleftrightarrow> c \<in> set s"
  by (induction s) auto

lemma decimalText_set:
  "\<forall>c \<in> set ds. isDigit c \<Longrightarrow> \<forall>c \<in> set fs. isDigit c \<Longrightarrow>
   c \<in> set (decimalText ds fs) \<Longrightarrow> isDigit c \<or> c = 46"
  by (auto simp: decimalText_def split: if_splits)

lemma parseLikeCount_unit:
  assumes ds: "ds \<noteq> []" "\<forall>c \<in> set ds. isDigit c" and fs: "\<forall>c \<in> set fs. isDigit c"
    and u: "u \<in> {ascii ''k'', ascii ''m''}"
    and n: "toLowerCase (filter (\<lambda>c. \<not> (c = 44 \<or> isWhiteSpace c)) s) = decimalText ds fs @ u"
  shows "parseLikeCount s = multiply (toDouble (decimalValue ds fs)) (unitFactor u)"
proof -
  have pf: "parseFloat (decimalText ds fs @ [107]) = toDouble (decimalValue ds fs)"
    "parseFloat (decimalText ds fs @ [109]) = toDouble (decimalValue ds fs)"
    by (rule parseFloat_decimal[OF ds fs], simp add: isDigit_def)+
  have nk: "107 \<notin> set (decimalText ds fs)" "109 \<notin> set (decimalText ds fs)"
    using decimalText_set[OF ds(2) fs, of 107] decimalText_set[OF ds(2) fs, of 109]
    by (auto simp: isDigit_def)
  from u show ?thesis
    unfolding parseLikeCount_def n
    using nk by (auto simp: pf includes_single unitFactor_def ascii_def)
qed

lemma radixDigit_10: "isRadixDigit 10 c \<longleftrightarrow> isDigit c"
  by (auto simp: isRadixDigit_def digitOf_def isDigit_def split: option.splits if_splits)

lemma radixValue_digits_aux:
  "\<forall>c \<in> set ds. isDigit c \<Longrightarrow>
   foldl (\<lambda>a c. 10 * a + the (digitOf c)) a0 ds = foldl (\<lambda>a c. 10 * a + (c - 48)) a0 ds"
  by (induction ds arbitrary: a0) (auto simp: digitOf_def isDigit_def)

lemma radixValue_digits: "\<forall>c \<in> set ds. isDigit c \<Longrightarrow> radixValue 10 ds = digitsValue ds"
  by (simp add: radixValue_def digitsValue_def radixValue_digits_aux)

lemma no_hex_prefix: "\<forall>c \<in> set s. c \<noteq> 120 \<and> c \<noteq> 88 \<Longrightarrow> \<not> hasHexPrefix s"
  by (cases s; cases "tl s") (auto simp: hasHexPrefix_def)

lemma parseInt_after_digits:
  assumes ds: "ds \<noteq> []" "\<forall>c \<in> set ds. isDigit c" and r: "r = [] \<or> \<not> isDigit (hd r)"
    and x: "\<forall>c \<in> set r. c \<noteq> 120 \<and> c \<noteq> 88"
  shows "parseInt (ds @ r) None = toDouble (of_nat (digitsValue ds))"
proof -
  obtain d ds' where d: "ds = d # ds'" using ds(1) by (cases ds) auto
  have dd: "isDigit d" using ds(2) d by simp
  have ws: "dropWhile isWhiteSpace (ds @ r) = ds @ r"
    using dd d by (simp add: digit_not_space)
  have sg: "signOf (ds @ r) = (False, ds @ r)"
    using dd d by (auto simp: isDigit_def)
  have r10: "isRadixDigit 10 = isDigit" by (rule ext) (simp add: radixDigit_10)
  have tw: "takeWhile isDigit (ds @ r) = ds"
    using takeWhile_stop[OF ds(2) r] by auto
  have hx: "\<not> hasHexPrefix (ds @ r)"
    using ds(2) x by (intro no_hex_prefix) (auto simp: isDigit_def)
  show ?thesis
    unfolding parseInt_def ws sg
    using ds hx by (simp add: r10 tw radixValue_digits Let_def)
qed

lemma parseLikeCount_plain:
  assumes ds: "ds \<noteq> []" "\<forall>c \<in> set ds. isDigit c" and fs: "\<forall>c \<in> set fs. isDigit c"
    and n: "toLowerCase (filter (\<lambda>c. \<not> (c = 44 \<or> isWhiteSpace c)) s) = decimalText ds fs"
  shows "parseLikeCount s = toDouble (of_nat (digitsValue ds))"
proof -
  let ?r = "if fs = [] then [] else 46 # fs"
  have r: "?r = [] \<or> \<not> isDigit (hd ?r)" by (simp add: isDigit_def)
  have x: "\<forall>c \<in> set ?r. c \<noteq> 120 \<and> c \<noteq> 88" using fs by (auto simp: isDigit_def)
  have pi: "parseInt (decimalText ds fs) None = toDouble (of_nat (digitsValue ds))"
    unfolding decimalText_def by (rule parseInt_after_digits[OF ds r x])
  have nk: "107 \<notin> set (decimalText ds fs)" "109 \<notin> set (decimalText ds fs)"
    using decimalText_set[OF ds(2) fs, of 107] decimalText_set[OF ds(2) fs, of 109]
    by (auto simp: isDigit_def)
  show ?thesis
    unfolding parseLikeCount_def n
    using nk by (simp add: pi includes_single ascii_def orZero_toDouble)
qed

lemma lowerUnit_not_space: "\<not> isWhiteSpace c \<Longrightarrow> x \<in> set (lowerUnit c) \<Longrightarrow> \<not> isWhiteSpace x"
  by (auto simp: lowerUnit_def isWhiteSpace_def split: if_splits)

lemma cleanText_no_space:
  "x \<in> set (toLowerCase (filter (\<lambda>c. \<not> (c = 44 \<or> isWhiteSpace c)) s)) \<Longrightarrow> \<not> isWhiteSpace x"
  by (auto simp: toLowerCase_def dest: lowerUnit_not_space)

lemma parseInt_no_number:
  assumes "t = [] \<or> (\<not> isWhiteSpace (hd t) \<and> \<not> isDigit (hd t) \<and> hd t \<noteq> 43 \<and> hd t \<noteq> 45)"
  shows "parseInt t None = NaN"
proof (cases t)
  case Nil
  then show ?thesis by (simp add: parseInt_def hasHexPrefix_def)
next
  case (Cons c cs)
  with assms have c: "\<not> isWhiteSpace c" "\<not> isDigit c" "c \<noteq> 43" "c \<noteq> 45" by auto
  then have "\<not> hasHexPrefix (c # cs)" by (auto simp: hasHexPrefix_def isDigit_def)
  with c Cons show ?thesis
    by (simp add: parseInt_def radixDigit_10 Let_def)
qed

lemma parseLikeCount_no_number:
  assumes k: "107 \<notin> set (toLowerCase (filter (\<lambda>c. \<not> (c = 44 \<or> isWhiteSpace c)) s))"
    and m: "109 \<notin> set (toLowerCase (filter (\<lambda>c. \<not> (c = 44 \<or> isWhiteSpace c)) s))"
    and h: "toLowerCase (filter (\<lambda>c. \<not> (c = 44 \<or> isWhiteSpace c)) s) = [] \<or>
       (\<not> isDigit (hd (toLowerCase (filter (\<lambda>c. \<not> (c = 44 \<or> isWhiteSpace c)) s))) \<and>
        hd (toLowerCase (filter (\<lambda>c. \<not> (c = 44 \<or> isWhiteSpace c)) s)) \<noteq> 43 \<and>
        hd (toLowerCase (filter (\<lambda>c. \<not> (c = 44 \<or> isWhiteSpace c)) s)) \<noteq> 45)"
  shows "parseLikeCount s = Fin 0"
proof -
  let ?t = "toLowerCase (filter (\<lambda>c. \<not> (c = 44 \<or> isWhiteSpace c)) s)"
  have "?t = [] \<or> \<not> isWhiteSpace (hd ?t)"
    using cleanText_no_space[of "hd ?t" s] by (cases ?t) auto
  with h have "parseInt ?t None = NaN" by (intro parseInt_no_number) auto
  with k m show ?thesis
    unfolding parseLikeCount_def by (simp add: includes_single ascii_def Let_def)
qed

text \<open>The numbers of the examples, rounded.\<close>

lemma toDouble_eval:
  assumes "pow2 e \<le> r" "r < pow2 (e + 1)" "- 1022 \<le> e" "e < 1024"
    and "roundHalfEven (r / pow2 (e - 52)) = m" "of_int m * pow2 (e - 52) = v" "v < 2 ^ 1024"
  shows "toDouble r = Fin v"
  using toDouble_normal [OF assms(1-4)] assms(5-7) by (simp add: Let_def)

lemmas round_eval = pow2_def roundHalfEven_def floor_rat_numeral Let_def

lemma double_12_3: "toDouble (123 / 10) = Fin (3462142213541069 / 281474976710656)"
  by (rule toDouble_eval [where e = 3 and m = 6924284427082138]) (simp_all add: round_eval)

lemma double_12_3k: "multiply (toDouble (123 / 10)) 1000 = Fin 12300"
  unfolding double_12_3 multiply.simps
  by (rule toDouble_eval [where e = 13 and m = 6761996510822400]) (simp_all add: round_eval)

lemma double_16_1: "toDouble (161 / 10) = Fin (2265873562520781 / 140737488355328)"
  by (rule toDouble_eval [where e = 4 and m = 4531747125041562]) (simp_all add: round_eval)

lemma double_16_1k: "multiply (toDouble (161 / 10)) 1000 = Fin (8851068603596801 / 549755813888)"
  unfolding double_16_1 multiply.simps
  by (rule toDouble_eval [where e = 13 and m = 8851068603596801]) (simp_all add: round_eval)

lemma double_1_5: "toDouble (3 / 2) = Fin (3 / 2)"
  by (rule toDouble_eval [where e = 0 and m = 6755399441055744]) (simp_all add: round_eval)

lemma double_1_0625k: "multiply (toDouble (17 / 16)) 1000 = Fin (2125 / 2)"
proof -
  have "toDouble (17 / 16) = Fin (17 / 16)"
    by (rule toDouble_eval [where e = 0 and m = 4785074604081152]) (simp_all add: round_eval)
  then show ?thesis
    unfolding multiply.simps
    by (simp only: multiply.simps)
      (rule toDouble_eval [where e = 10 and m = 4672924418048000], simp_all add: round_eval)
qed

lemma toDouble_numeral:
  "(numeral k :: nat) < 2 ^ 53 \<Longrightarrow> toDouble (numeral k) = Fin (numeral k)"
  using toDouble_nat_exact [of "numeral k"] by simp

lemma toDouble_0: "toDouble 0 = Fin 0"
  by (simp add: toDouble_def)

lemmas count_eval =
  ascii_def toLowerCase_def lowerUnit_def matchCount_def isDigitOrDot_def isDigit_def
  parseFloat_def isWhiteSpace_def digitsValue_def multipliers_def pow10_def
  parseInt_def hasHexPrefix_def isRadixDigit_def digitOf_def radixValue_def
  toDouble_numeral toDouble_0

lemma parseCount_examples:
  "parseCount (ascii ''0'') = Fin 0" "parseCount (ascii ''1,234'') = Fin 1234"
  "parseCount (ascii ''12.3k'') = Fin 12300" "parseCount (ascii ''2m'') = Fin 2000000"
  "parseCount (ascii '''') = Fin 0" "parseCount (ascii ''abc'') = Fin 0"
proof -
  show "parseCount (ascii ''0'') = Fin 0"
    using parseCount_whole_exact [of "ascii ''0''" "[]" "ascii ''0''"]
    by (simp add: ascii_def isDigit_def toLowerCase_def lowerUnit_def unitFactor_def digitsValue_def)
  show "parseCount (ascii ''1,234'') = Fin 1234"
    using parseCount_whole_exact [of "ascii ''1234''" "[]" "ascii ''1,234''"]
    by (simp add: ascii_def isDigit_def toLowerCase_def lowerUnit_def unitFactor_def digitsValue_def)
  show "parseCount (ascii ''2m'') = Fin 2000000"
    using parseCount_whole_exact [of "ascii ''2''" "ascii ''m''" "ascii ''2m''"]
    by (simp add: ascii_def isDigit_def toLowerCase_def lowerUnit_def unitFactor_def digitsValue_def)
  have "parseCount (ascii ''12.3k'') =
      multiply (toDouble (decimalValue (ascii ''12'') (ascii ''3''))) (unitFactor (ascii ''k''))"
    by (rule parseCount_unit)
      (simp_all add: ascii_def isDigit_def toLowerCase_def lowerUnit_def decimalText_def)
  moreover have "decimalValue (ascii ''12'') (ascii ''3'') = 123 / 10"
    by (simp add: decimalValue_def digitsValue_def ascii_def)
  moreover have "unitFactor (ascii ''k'') = 1000" by (simp add: unitFactor_def)
  ultimately show "parseCount (ascii ''12.3k'') = Fin 12300" by (simp only: double_12_3k)
  show "parseCount (ascii '''') = Fin 0" "parseCount (ascii ''abc'') = Fin 0"
    by (simp_all add: parseCount_def ascii_def toLowerCase_def lowerUnit_def matchCount_def
        isDigitOrDot_def isDigit_def)
qed

lemma parseLikeCount_examples:
  "parseLikeCount (ascii ''0'') = Fin 0" "parseLikeCount (ascii ''1,234'') = Fin 1234"
  "parseLikeCount (ascii ''12.3k'') = Fin 12300" "parseLikeCount (ascii ''2m'') = Fin 2000000"
  "parseLikeCount (ascii '''') = Fin 0" "parseLikeCount (ascii ''abc'') = Fin 0"
proof -
  have "parseLikeCount (ascii ''0'') = toDouble (of_nat (digitsValue (ascii ''0'')))"
    by (rule parseLikeCount_plain [where fs = "[]"])
      (simp_all add: ascii_def isDigit_def isWhiteSpace_def toLowerCase_def lowerUnit_def decimalText_def)
  then show "parseLikeCount (ascii ''0'') = Fin 0"
    by (simp add: digitsValue_def ascii_def toDouble_0)
  have "parseLikeCount (ascii ''1,234'') = toDouble (of_nat (digitsValue (ascii ''1234'')))"
    by (rule parseLikeCount_plain [where fs = "[]"])
      (simp_all add: ascii_def isDigit_def isWhiteSpace_def toLowerCase_def lowerUnit_def decimalText_def)
  then show "parseLikeCount (ascii ''1,234'') = Fin 1234"
    by (simp add: digitsValue_def ascii_def toDouble_numeral)
  have "parseLikeCount (ascii ''12.3k'') =
      multiply (toDouble (decimalValue (ascii ''12'') (ascii ''3''))) (unitFactor (ascii ''k''))"
    by (rule parseLikeCount_unit)
      (simp_all add: ascii_def isDigit_def isWhiteSpace_def toLowerCase_def lowerUnit_def decimalText_def)
  moreover have "decimalValue (ascii ''12'') (ascii ''3'') = 123 / 10"
    by (simp add: decimalValue_def digitsValue_def ascii_def)
  moreover have "unitFactor (ascii ''k'') = 1000" by (simp add: unitFactor_def)
  ultimately show "parseLikeCount (ascii ''12.3k'') = Fin 12300" by (simp only: double_12_3k)
  have "parseLikeCount (ascii ''2m'') =
      multiply (toDouble (decimalValue (ascii ''2'') [])) (unitFactor (ascii ''m''))"
    by (rule parseLikeCount_unit)
      (simp_all add: ascii_def isDigit_def isWhiteSpace_def toLowerCase_def lowerUnit_def decimalText_def)
  also have "\<dots> = Fin (of_nat (digitsValue (ascii ''2'')) * unitFactor (ascii ''m''))"
    unfolding decimalValue_whole
    by (rule multiply_unit_exact) (simp_all add: unitFactor_def digitsValue_def ascii_def)
  finally show "parseLikeCount (ascii ''2m'') = Fin 2000000"
    by (simp add: unitFactor_def digitsValue_def ascii_def)
  show "parseLikeCount (ascii '''') = Fin 0" "parseLikeCount (ascii ''abc'') = Fin 0"
    by (simp_all add: parseLikeCount_def ascii_def toLowerCase_def lowerUnit_def isWhiteSpace_def
        parseInt_def hasHexPrefix_def isRadixDigit_def digitOf_def)
qed

lemma count_not_integer:
  "parseCount (ascii ''1.5'') = Fin (3 / 2)" "\<not> isInteger (parseCount (ascii ''1.5''))"
  "parseLikeCount (ascii ''1.0625k'') = Fin (2125 / 2)" "\<not> isInteger (parseLikeCount (ascii ''1.0625k''))"
  "parseLikeCount (ascii ''16.1k'') = Fin (8851068603596801 / 549755813888)"
  "\<not> isInteger (parseLikeCount (ascii ''16.1k''))"
proof -
  have "parseCount (ascii ''1.5'') = toDouble (decimalValue (ascii ''1'') (ascii ''5''))"
    by (rule parseCount_plain)
      (simp_all add: ascii_def isDigit_def toLowerCase_def lowerUnit_def decimalText_def)
  moreover have "decimalValue (ascii ''1'') (ascii ''5'') = 3 / 2"
    by (simp add: decimalValue_def digitsValue_def ascii_def)
  ultimately show a: "parseCount (ascii ''1.5'') = Fin (3 / 2)" by (simp only: double_1_5)
  show "\<not> isInteger (parseCount (ascii ''1.5''))"
    unfolding a by (simp add: floor_rat_numeral)
  have "parseLikeCount (ascii ''1.0625k'') =
      multiply (toDouble (decimalValue (ascii ''1'') (ascii ''0625''))) (unitFactor (ascii ''k''))"
    by (rule parseLikeCount_unit)
      (simp_all add: ascii_def isDigit_def isWhiteSpace_def toLowerCase_def lowerUnit_def decimalText_def)
  moreover have "decimalValue (ascii ''1'') (ascii ''0625'') = 17 / 16"
    by (simp add: decimalValue_def digitsValue_def ascii_def)
  moreover have k: "unitFactor (ascii ''k'') = 1000" by (simp add: unitFactor_def)
  ultimately show b: "parseLikeCount (ascii ''1.0625k'') = Fin (2125 / 2)"
    by (simp only: double_1_0625k)
  show "\<not> isInteger (parseLikeCount (ascii ''1.0625k''))"
    unfolding b by (simp add: floor_rat_numeral)
  have "parseLikeCount (ascii ''16.1k'') =
      multiply (toDouble (decimalValue (ascii ''16'') (ascii ''1''))) (unitFactor (ascii ''k''))"
    by (rule parseLikeCount_unit)
      (simp_all add: ascii_def isDigit_def isWhiteSpace_def toLowerCase_def lowerUnit_def decimalText_def)
  moreover have "decimalValue (ascii ''16'') (ascii ''1'') = 161 / 10"
    by (simp add: decimalValue_def digitsValue_def ascii_def)
  ultimately show c: "parseLikeCount (ascii ''16.1k'') = Fin (8851068603596801 / 549755813888)"
    using k by (simp only: double_16_1k)
  show "\<not> isInteger (parseLikeCount (ascii ''16.1k''))"
    unfolding c by (simp add: floor_rat_numeral)
qed

lemma parseLikeCount_whole_exact:
  assumes ds: "ds \<noteq> []" "\<forall>c \<in> set ds. isDigit c"
    and u: "u \<in> {[], ascii ''k'', ascii ''m''}"
    and n: "toLowerCase (filter (\<lambda>c. \<not> (c = 44 \<or> isWhiteSpace c)) s) = ds @ u"
    and b: "of_nat (digitsValue ds) * unitFactor u < 2 ^ 53"
  shows "parseLikeCount s = Fin (of_nat (digitsValue ds) * unitFactor u)"
proof (cases "u = []")
  case True
  have "parseLikeCount s = toDouble (of_nat (digitsValue ds))"
    using parseLikeCount_plain [OF ds, of "[]" s] n True by (simp add: decimalText_def)
  moreover have "digitsValue ds < 2 ^ 53"
    using b True by (intro rat_of_nat_less_2_53) (simp add: unitFactor_def ascii_def)
  ultimately show ?thesis using True
    by (simp add: toDouble_nat_exact unitFactor_def ascii_def)
next
  case False
  with u have u': "u \<in> {ascii ''k'', ascii ''m''}" by simp
  then have u'': "u \<in> {ascii ''k'', ascii ''m'', ascii ''b''}" by auto
  have "parseLikeCount s = multiply (toDouble (of_nat (digitsValue ds))) (unitFactor u)"
    using parseLikeCount_unit [OF ds _ u', of "[]" s] n
    by (simp add: decimalText_def decimalValue_whole)
  with multiply_unit_exact [OF u'' b] show ?thesis by simp
qed

text \<open>
  Claim C1, as amended. Numbers are doubles, and \<open>toDouble\<close> rounds to the nearest one.
  \<open>parseCount\<close> lower-cases the text and removes the commas (not the white space). If
  what is left is a number, the result is the double nearest to it; if a \<open>k\<close>, \<open>m\<close> or
  \<open>b\<close> follows the number, the result is that double times the factor of the unit,
  rounded to a double again and not to an integer; for a whole number whose product
  with the factor is below \<open>2 ^ 53\<close> this is the exact product; if what is left is not
  a run of digits and dots followed by at most one unit letter, the result is 0.
  \<open>parseLikeCount\<close> removes commas and white space and lower-cases. If what is left is
  a number and a \<open>k\<close> or an \<open>m\<close>, the result is the double nearest to the number times
  the factor, rounded to a double; if it is a number alone, the result is the double
  nearest to its integer part; for a whole number, alone or with \<open>k\<close> or \<open>m\<close>, whose
  product with the factor is below \<open>2 ^ 53\<close>, the result is the exact product; if the
  text holds no \<open>k\<close> and no \<open>m\<close> and does not start with a digit or a sign, the result
  is 0. Both give 0, 1234, 12300, 2000000, 0 and 0 on \<open>0\<close>, \<open>1,234\<close>, \<open>12.3k\<close>, \<open>2m\<close>, the
  empty text and \<open>abc\<close>. Both return a number for every string: neither has an error
  result.
\<close>

theorem count_parsers:
  "(\<forall>ds fs. ds \<noteq> [] \<and> (\<forall>c \<in> set ds. isDigit c) \<and> (\<forall>c \<in> set fs. isDigit c) \<and>
        filter (\<lambda>c. c \<noteq> 44) (toLowerCase s) = decimalText ds fs \<longrightarrow>
        parseCount s = toDouble (decimalValue ds fs)) \<and>
   (\<forall>ds fs u. ds \<noteq> [] \<and> (\<forall>c \<in> set ds. isDigit c) \<and> (\<forall>c \<in> set fs. isDigit c) \<and>
        u \<in> {ascii ''k'', ascii ''m'', ascii ''b''} \<and>
        filter (\<lambda>c. c \<noteq> 44) (toLowerCase s) = decimalText ds fs @ u \<longrightarrow>
        parseCount s = multiply (toDouble (decimalValue ds fs)) (unitFactor u)) \<and>
   (\<forall>ds u. ds \<noteq> [] \<and> (\<forall>c \<in> set ds. isDigit c) \<and>
        u \<in> {[], ascii ''k'', ascii ''m'', ascii ''b''} \<and>
        filter (\<lambda>c. c \<noteq> 44) (toLowerCase s) = ds @ u \<and>
        of_nat (digitsValue ds) * unitFactor u < 2 ^ 53 \<longrightarrow>
        parseCount s = Fin (of_nat (digitsValue ds) * unitFactor u)) \<and>
   ((\<nexists>num u. filter (\<lambda>c. c \<noteq> 44) (toLowerCase s) = num @ u \<and> num \<noteq> [] \<and>
        (\<forall>c \<in> set num. isDigitOrDot c) \<and> u \<in> {[], ascii ''k'', ascii ''m'', ascii ''b''}) \<longrightarrow>
        parseCount s = Fin 0) \<and>
   (\<forall>ds fs u. ds \<noteq> [] \<and> (\<forall>c \<in> set ds. isDigit c) \<and> (\<forall>c \<in> set fs. isDigit c) \<and>
        u \<in> {ascii ''k'', ascii ''m''} \<and>
        toLowerCase (filter (\<lambda>c. \<not> (c = 44 \<or> isWhiteSpace c)) s) = decimalText ds fs @ u \<longrightarrow>
        parseLikeCount s = multiply (toDouble (decimalValue ds fs)) (unitFactor u)) \<and>
   (\<forall>ds fs. ds \<noteq> [] \<and> (\<forall>c \<in> set ds. isDigit c) \<and> (\<forall>c \<in> set fs. isDigit c) \<and>
        toLowerCase (filter (\<lambda>c. \<not> (c = 44 \<or> isWhiteSpace c)) s) = decimalText ds fs \<longrightarrow>
        parseLikeCount s = toDouble (of_nat (digitsValue ds))) \<and>
   (\<forall>ds u. ds \<noteq> [] \<and> (\<forall>c \<in> set ds. isDigit c) \<and> u \<in> {[], ascii ''k'', ascii ''m''} \<and>
        toLowerCase (filter (\<lambda>c. \<not> (c = 44 \<or> isWhiteSpace c)) s) = ds @ u \<and>
        of_nat (digitsValue ds) * unitFactor u < 2 ^ 53 \<longrightarrow>
        parseLikeCount s = Fin (of_nat (digitsValue ds) * unitFactor u)) \<and>
   (107 \<notin> set (toLowerCase (filter (\<lambda>c. \<not> (c = 44 \<or> isWhiteSpace c)) s)) \<and>
    109 \<notin> set (toLowerCase (filter (\<lambda>c. \<not> (c = 44 \<or> isWhiteSpace c)) s)) \<and>
    (toLowerCase (filter (\<lambda>c. \<not> (c = 44 \<or> isWhiteSpace c)) s) = [] \<or>
     (\<not> isDigit (hd (toLowerCase (filter (\<lambda>c. \<not> (c = 44 \<or> isWhiteSpace c)) s))) \<and>
      hd (toLowerCase (filter (\<lambda>c. \<not> (c = 44 \<or> isWhiteSpace c)) s)) \<noteq> 43 \<and>
      hd (toLowerCase (filter (\<lambda>c. \<not> (c = 44 \<or> isWhiteSpace c)) s)) \<noteq> 45)) \<longrightarrow>
        parseLikeCount s = Fin 0) \<and>
   map parseCount [ascii ''0'', ascii ''1,234'', ascii ''12.3k'', ascii ''2m'', ascii '''', ascii ''abc'']
     = [Fin 0, Fin 1234, Fin 12300, Fin 2000000, Fin 0, Fin 0] \<and>
   map parseLikeCount [ascii ''0'', ascii ''1,234'', ascii ''12.3k'', ascii ''2m'', ascii '''', ascii ''abc'']
     = [Fin 0, Fin 1234, Fin 12300, Fin 2000000, Fin 0, Fin 0]"
proof -
  have a: "\<forall>ds fs. ds \<noteq> [] \<and> (\<forall>c \<in> set ds. isDigit c) \<and> (\<forall>c \<in> set fs. isDigit c) \<and>
        filter (\<lambda>c. c \<noteq> 44) (toLowerCase s) = decimalText ds fs \<longrightarrow>
        parseCount s = toDouble (decimalValue ds fs)"
    using parseCount_plain by blast
  have b: "\<forall>ds fs u. ds \<noteq> [] \<and> (\<forall>c \<in> set ds. isDigit c) \<and> (\<forall>c \<in> set fs. isDigit c) \<and>
        u \<in> {ascii ''k'', ascii ''m'', ascii ''b''} \<and>
        filter (\<lambda>c. c \<noteq> 44) (toLowerCase s) = decimalText ds fs @ u \<longrightarrow>
        parseCount s = multiply (toDouble (decimalValue ds fs)) (unitFactor u)"
    using parseCount_unit by blast
  have c: "\<forall>ds u. ds \<noteq> [] \<and> (\<forall>c \<in> set ds. isDigit c) \<and>
        u \<in> {[], ascii ''k'', ascii ''m'', ascii ''b''} \<and>
        filter (\<lambda>c. c \<noteq> 44) (toLowerCase s) = ds @ u \<and>
        of_nat (digitsValue ds) * unitFactor u < 2 ^ 53 \<longrightarrow>
        parseCount s = Fin (of_nat (digitsValue ds) * unitFactor u)"
    using parseCount_whole_exact by blast
  have d: "(\<nexists>num u. filter (\<lambda>c. c \<noteq> 44) (toLowerCase s) = num @ u \<and> num \<noteq> [] \<and>
        (\<forall>c \<in> set num. isDigitOrDot c) \<and> u \<in> {[], ascii ''k'', ascii ''m'', ascii ''b''}) \<longrightarrow>
        parseCount s = Fin 0"
    using parseCount_no_match by blast
  have e: "\<forall>ds fs u. ds \<noteq> [] \<and> (\<forall>c \<in> set ds. isDigit c) \<and> (\<forall>c \<in> set fs. isDigit c) \<and>
        u \<in> {ascii ''k'', ascii ''m''} \<and>
        toLowerCase (filter (\<lambda>c. \<not> (c = 44 \<or> isWhiteSpace c)) s) = decimalText ds fs @ u \<longrightarrow>
        parseLikeCount s = multiply (toDouble (decimalValue ds fs)) (unitFactor u)"
    using parseLikeCount_unit by blast
  have f: "\<forall>ds fs. ds \<noteq> [] \<and> (\<forall>c \<in> set ds. isDigit c) \<and> (\<forall>c \<in> set fs. isDigit c) \<and>
        toLowerCase (filter (\<lambda>c. \<not> (c = 44 \<or> isWhiteSpace c)) s) = decimalText ds fs \<longrightarrow>
        parseLikeCount s = toDouble (of_nat (digitsValue ds))"
    using parseLikeCount_plain by blast
  have g: "\<forall>ds u. ds \<noteq> [] \<and> (\<forall>c \<in> set ds. isDigit c) \<and> u \<in> {[], ascii ''k'', ascii ''m''} \<and>
        toLowerCase (filter (\<lambda>c. \<not> (c = 44 \<or> isWhiteSpace c)) s) = ds @ u \<and>
        of_nat (digitsValue ds) * unitFactor u < 2 ^ 53 \<longrightarrow>
        parseLikeCount s = Fin (of_nat (digitsValue ds) * unitFactor u)"
    using parseLikeCount_whole_exact by blast
  have h: "107 \<notin> set (toLowerCase (filter (\<lambda>c. \<not> (c = 44 \<or> isWhiteSpace c)) s)) \<and>
    109 \<notin> set (toLowerCase (filter (\<lambda>c. \<not> (c = 44 \<or> isWhiteSpace c)) s)) \<and>
    (toLowerCase (filter (\<lambda>c. \<not> (c = 44 \<or> isWhiteSpace c)) s) = [] \<or>
     (\<not> isDigit (hd (toLowerCase (filter (\<lambda>c. \<not> (c = 44 \<or> isWhiteSpace c)) s))) \<and>
      hd (toLowerCase (filter (\<lambda>c. \<not> (c = 44 \<or> isWhiteSpace c)) s)) \<noteq> 43 \<and>
      hd (toLowerCase (filter (\<lambda>c. \<not> (c = 44 \<or> isWhiteSpace c)) s)) \<noteq> 45)) \<longrightarrow>
        parseLikeCount s = Fin 0"
    using parseLikeCount_no_number by blast
  have i: "map parseCount [ascii ''0'', ascii ''1,234'', ascii ''12.3k'', ascii ''2m'', ascii '''', ascii ''abc'']
     = [Fin 0, Fin 1234, Fin 12300, Fin 2000000, Fin 0, Fin 0]"
    by (simp add: parseCount_examples)
  have j: "map parseLikeCount [ascii ''0'', ascii ''1,234'', ascii ''12.3k'', ascii ''2m'', ascii '''', ascii ''abc'']
     = [Fin 0, Fin 1234, Fin 12300, Fin 2000000, Fin 0, Fin 0]"
    by (simp add: parseLikeCount_examples)
  from a b c d e f g h i j show ?thesis by (intro conjI)
qed

theorem count_parsers_witness:
  "parseCount (ascii ''4.25'') = toDouble (decimalValue (ascii ''4'') (ascii ''25'')) \<and>
   parseCount (ascii ''4.25M'') =
     multiply (toDouble (decimalValue (ascii ''4'') (ascii ''25''))) (unitFactor (ascii ''m'')) \<and>
   parseCount (ascii ''7K'') = Fin (of_nat (digitsValue (ascii ''7'')) * unitFactor (ascii ''k'')) \<and>
   parseCount (ascii '''') = Fin 0 \<and>
   parseLikeCount (ascii ''4.25 K'') =
     multiply (toDouble (decimalValue (ascii ''4'') (ascii ''25''))) (unitFactor (ascii ''k'')) \<and>
   parseLikeCount (ascii ''4.25'') = toDouble (of_nat (digitsValue (ascii ''4''))) \<and>
   parseLikeCount (ascii ''7 K'') = Fin (of_nat (digitsValue (ascii ''7'')) * unitFactor (ascii ''k'')) \<and>
   parseLikeCount (ascii ''n/a'') = Fin 0"
proof -
  have d: "ascii ''4'' \<noteq> [] \<and> (\<forall>c \<in> set (ascii ''4''). isDigit c) \<and>
      (\<forall>c \<in> set (ascii ''25''). isDigit c)"
    by (simp add: ascii_def isDigit_def)
  have d7: "ascii ''7'' \<noteq> [] \<and> (\<forall>c \<in> set (ascii ''7''). isDigit c) \<and>
      of_nat (digitsValue (ascii ''7'')) * unitFactor (ascii ''k'') < (2::rat) ^ 53"
    by (simp add: ascii_def isDigit_def digitsValue_def unitFactor_def)
  have n1: "filter (\<lambda>c. c \<noteq> 44) (toLowerCase (ascii ''4.25'')) =
      decimalText (ascii ''4'') (ascii ''25'')"
    by (simp add: ascii_def toLowerCase_def lowerUnit_def decimalText_def)
  have c1: "parseCount (ascii ''4.25'') = toDouble (decimalValue (ascii ''4'') (ascii ''25''))"
    using conjunct1[OF count_parsers[of "ascii ''4.25''"]] d n1 by blast
  have n2: "ascii ''m'' \<in> {ascii ''k'', ascii ''m'', ascii ''b''} \<and>
      filter (\<lambda>c. c \<noteq> 44) (toLowerCase (ascii ''4.25M'')) =
      decimalText (ascii ''4'') (ascii ''25'') @ ascii ''m''"
    by (simp add: ascii_def toLowerCase_def lowerUnit_def decimalText_def)
  have c2: "parseCount (ascii ''4.25M'') =
      multiply (toDouble (decimalValue (ascii ''4'') (ascii ''25''))) (unitFactor (ascii ''m''))"
    using conjunct1[OF conjunct2[OF count_parsers[of "ascii ''4.25M''"]]] d n2 by blast
  have n3: "ascii ''k'' \<in> {[], ascii ''k'', ascii ''m'', ascii ''b''} \<and>
      filter (\<lambda>c. c \<noteq> 44) (toLowerCase (ascii ''7K'')) = ascii ''7'' @ ascii ''k''"
    by (simp add: ascii_def toLowerCase_def lowerUnit_def)
  have c3: "parseCount (ascii ''7K'') = Fin (of_nat (digitsValue (ascii ''7'')) * unitFactor (ascii ''k''))"
    using conjunct1[OF conjunct2[OF conjunct2[OF count_parsers[of "ascii ''7K''"]]]] d7 n3 by blast
  have n4: "\<nexists>num u. filter (\<lambda>c. c \<noteq> 44) (toLowerCase (ascii '''')) = num @ u \<and> num \<noteq> [] \<and>
        (\<forall>c \<in> set num. isDigitOrDot c) \<and> u \<in> {[], ascii ''k'', ascii ''m'', ascii ''b''}"
    by (simp add: ascii_def toLowerCase_def)
  have c4: "parseCount (ascii '''') = Fin 0"
    using conjunct1[OF conjunct2[OF conjunct2[OF conjunct2[OF count_parsers[of "ascii ''''"]]]]] n4
    by blast
  have n5: "ascii ''k'' \<in> {ascii ''k'', ascii ''m''} \<and>
      toLowerCase (filter (\<lambda>c. \<not> (c = 44 \<or> isWhiteSpace c)) (ascii ''4.25 K'')) =
      decimalText (ascii ''4'') (ascii ''25'') @ ascii ''k''"
    by (simp add: ascii_def toLowerCase_def lowerUnit_def decimalText_def isWhiteSpace_def)
  have c5: "parseLikeCount (ascii ''4.25 K'') =
      multiply (toDouble (decimalValue (ascii ''4'') (ascii ''25''))) (unitFactor (ascii ''k''))"
    using conjunct1[OF conjunct2[OF conjunct2[OF conjunct2[OF conjunct2[OF
      count_parsers[of "ascii ''4.25 K''"]]]]]] d n5
    by blast
  have n6: "toLowerCase (filter (\<lambda>c. \<not> (c = 44 \<or> isWhiteSpace c)) (ascii ''4.25'')) =
       decimalText (ascii ''4'') (ascii ''25'')"
    by (simp add: ascii_def toLowerCase_def lowerUnit_def decimalText_def isWhiteSpace_def)
  have c6: "parseLikeCount (ascii ''4.25'') = toDouble (of_nat (digitsValue (ascii ''4'')))"
    using conjunct1[OF conjunct2[OF conjunct2[OF conjunct2[OF conjunct2[OF conjunct2[OF
      count_parsers[of "ascii ''4.25''"]]]]]]] d n6
    by blast
  have n7: "ascii ''k'' \<in> {[], ascii ''k'', ascii ''m''} \<and>
      toLowerCase (filter (\<lambda>c. \<not> (c = 44 \<or> isWhiteSpace c)) (ascii ''7 K'')) = ascii ''7'' @ ascii ''k''"
    by (simp add: ascii_def toLowerCase_def lowerUnit_def isWhiteSpace_def)
  have c7: "parseLikeCount (ascii ''7 K'') = Fin (of_nat (digitsValue (ascii ''7'')) * unitFactor (ascii ''k''))"
    using conjunct1[OF conjunct2[OF conjunct2[OF conjunct2[OF conjunct2[OF conjunct2[OF conjunct2[OF
      count_parsers[of "ascii ''7 K''"]]]]]]]] d7 n7
    by blast
  have n8: "toLowerCase (filter (\<lambda>c. \<not> (c = 44 \<or> isWhiteSpace c)) (ascii ''n/a'')) = [110, 47, 97]"
    by (simp add: ascii_def toLowerCase_def lowerUnit_def isWhiteSpace_def)
  have c8: "parseLikeCount (ascii ''n/a'') = Fin 0"
    using conjunct1[OF conjunct2[OF conjunct2[OF conjunct2[OF conjunct2[OF conjunct2[OF conjunct2[OF
      conjunct2[OF count_parsers[of "ascii ''n/a''"]]]]]]]]]
    unfolding n8 by (simp add: isDigit_def)
  from c1 c2 c3 c4 c5 c6 c7 c8 show ?thesis by (intro conjI)
qed

text \<open>
  The claim as stated fails where it promises an integer: \<open>1.5\<close> is read by \<open>parseCount\<close>
  as 1.5, and \<open>1.0625k\<close> by \<open>parseLikeCount\<close> as 1062.5, both exactly. It fails as well
  where the number times the factor is an integer: the double nearest to 16.1, times
  1000, rounds to 16100.000000000002, which is what \<open>parseLikeCount\<close> returns for
  \<open>16.1k\<close>.
\<close>

theorem count_parsers_counterexample:
  "parseCount (ascii ''1.5'') = Fin (3 / 2) \<and> \<not> isInteger (parseCount (ascii ''1.5'')) \<and>
   parseLikeCount (ascii ''1.0625k'') = Fin (2125 / 2) \<and>
   \<not> isInteger (parseLikeCount (ascii ''1.0625k'')) \<and>
   parseLikeCount (ascii ''16.1k'') = Fin (8851068603596801 / 549755813888) \<and>
   \<not> isInteger (parseLikeCount (ascii ''16.1k''))"
  using count_not_integer by (intro conjI)

subsection \<open>The loop over the post links\<close>

lemma quiet_determinePostType: "quiet (determinePostType env sc)"
  by (simp add: determinePostType_def quiet_throw quiet_evaluate)

lemma quiet_determinePostType_part: "quiet (determinePostType_part env sc)"
  by (simp add: determinePostType_part_def quiet_throw quiet_evaluate)

lemma quiet_processPost: "quiet (processPost env sc link)"
  unfolding processPost_def
  by (auto intro!: quiet_await quiet_retry quiet_external quiet_evaluate
      quiet_determinePostType quiet_resolve split: prod.splits)

lemma quiet_scrapePost: "quiet (scrapePost env sc url)"
  unfolding scrapePost_def
  by (auto intro!: quiet_await quiet_external quiet_evaluate quiet_determinePostType_part
      quiet_sleep quiet_throw quiet_resolve split: prod.splits)

lemma processPost_postUrl:
  "processPost env sc link st = (Inr post, st') \<Longrightarrow> postUrl post = link"
  by (auto simp: processPost_def resolve_def elim!: await_InrE split: prod.splits)

lemma processLink_ok:
  "processPost env sc link st = (Inr post, s1) \<Longrightarrow>
   processLink env sc link ps st =
     (Inr (ps @ [post]),
      s1\<lparr>console := console s1 @ [ConsoleLog [Str (ascii ''Processed post: '' @ link)]],
         world := setTimeout env 1000 (world s1)\<rparr>)"
  by (simp add: processLink_def tryCatch_def await_def consoleLog_def sleep_def resolve_def)

lemma processLink_fail:
  "processPost env sc link st = (Inl e, s1) \<Longrightarrow>
   processLink env sc link ps st =
     (Inr ps,
      s1\<lparr>console := console s1 @
        [ConsoleError [Str (ascii ''Error processing post '' @ link @ ascii '':''), Thrown e]]\<rparr>)"
  by (simp add: processLink_def tryCatch_def await_def consoleError_def resolve_def)

lemma processLink_cases:
  obtains (ok) post s1 where "processPost env sc link st = (Inr post, s1)"
  | (fail) e s1 where "processPost env sc link st = (Inl e, s1)"
  by (cases "processPost env sc link st"; cases "fst (processPost env sc link st)") auto

lemma processLinks_subseq:
  "processLinks env sc links ps st = (r, st') \<Longrightarrow>
   \<exists>qs. r = Inr (ps @ qs) \<and> subseq (map postUrl qs) links \<and> length qs \<le> length links"
proof (induction links arbitrary: ps st)
  case Nil
  then show ?case by auto
next
  case (Cons link links)
  show ?case
  proof (cases rule: processLink_cases[of env sc link st])
    case (ok post s1)
    note step = processLink_ok[OF ok, of ps]
    with Cons.prems have "processLinks env sc links (ps @ [post]) (snd (processLink env sc link ps st)) = (r, st')"
      by simp
    from Cons.IH[OF this] obtain qs where qs: "r = Inr ((ps @ [post]) @ qs)"
      "subseq (map postUrl qs) links" "length qs \<le> length links" by blast
    have "postUrl post = link" using ok by (rule processPost_postUrl)
    with qs show ?thesis by (intro exI[of _ "post # qs"]) auto
  next
    case (fail e s1)
    note step = processLink_fail[OF fail, of ps]
    with Cons.prems have "processLinks env sc links ps (snd (processLink env sc link ps st)) = (r, st')"
      by simp
    from Cons.IH[OF this] obtain qs where qs: "r = Inr (ps @ qs)"
      "subseq (map postUrl qs) links" "length qs \<le> length links" by blast
    then show ?thesis by (intro exI[of _ qs]) auto
  qed
qed

lemma processLinks_failing_link:
  assumes bad: "\<forall>s. isl (fst (processPost env sc bad s))"
    and good: "\<forall>l \<in> set links. l \<noteq> bad \<longrightarrow> (\<forall>s. \<not> isl (fst (processPost env sc l s)))"
  shows "\<exists>qs st'. processLinks env sc links ps st = (Inr (ps @ qs), st') \<and>
           map postUrl qs = filter (\<lambda>l. l \<noteq> bad) links \<and>
           prefix (console st) (console st') \<and>
           (bad \<in> set links \<longrightarrow>
              (\<exists>e. errorLine ''Error processing post '' bad e \<in> set (console st')))"
  using good
proof (induction links arbitrary: ps st)
  case Nil
  show ?case by simp
next
  case (Cons link links)
  show ?case
  proof (cases rule: processLink_cases[of env sc link st])
    case (ok post s1)
    then have nb: "link \<noteq> bad" using bad by (metis fst_conv sum.disc(2))
    have c1: "console s1 = console st" using quietD[OF quiet_processPost ok] .
    note step = processLink_ok[OF ok, of ps]
    from Cons.prems have "\<forall>l \<in> set links. l \<noteq> bad \<longrightarrow> (\<forall>s. \<not> isl (fst (processPost env sc l s)))"
      by simp
    from Cons.IH[OF this, of "ps @ [post]" "snd (processLink env sc link ps st)"]
    obtain qs st' where qs:
      "processLinks env sc links (ps @ [post]) (snd (processLink env sc link ps st)) = (Inr ((ps @ [post]) @ qs), st')"
      "map postUrl qs = filter (\<lambda>l. l \<noteq> bad) links"
      "prefix (console (snd (processLink env sc link ps st))) (console st')"
      "bad \<in> set links \<longrightarrow> (\<exists>e. errorLine ''Error processing post '' bad e \<in> set (console st'))"
      by blast
    have pu: "postUrl post = link" using ok by (rule processPost_postUrl)
    have pre: "prefix (console st) (console st')"
      using qs(3) c1 unfolding step by (auto elim: prefix_order.trans[rotated])
    show ?thesis
      apply (rule exI[of _ "post # qs"], rule exI[of _ st'])
      using qs step pu nb pre by simp
  next
    case (fail e s1)
    have c1: "console s1 = console st" using quietD[OF quiet_processPost fail] .
    have isbad: "link = bad" using fail Cons.prems by (metis fst_conv list.set_intros(1) sum.disc(1))
    note step = processLink_fail[OF fail, of ps]
    from Cons.prems have "\<forall>l \<in> set links. l \<noteq> bad \<longrightarrow> (\<forall>s. \<not> isl (fst (processPost env sc l s)))"
      by simp
    from Cons.IH[OF this, of ps "snd (processLink env sc link ps st)"]
    obtain qs st' where qs:
      "processLinks env sc links ps (snd (processLink env sc link ps st)) = (Inr (ps @ qs), st')"
      "map postUrl qs = filter (\<lambda>l. l \<noteq> bad) links"
      "prefix (console (snd (processLink env sc link ps st))) (console st')"
      by blast
    from qs(3) have pre2: "prefix (console st @ [errorLine ''Error processing post '' bad e]) (console st')"
      unfolding step by (simp add: c1 isbad errorLine_def)
    then have pre: "prefix (console st) (console st')"
      by (metis append_prefixD)
    have "errorLine ''Error processing post '' bad e \<in> set (console st')"
      using set_mono_prefix[OF pre2] by auto
    then show ?thesis
      apply (intro exI[of _ qs] exI[of _ st'])
      using qs step isbad pre by auto
  qed
qed

lemma scrapePost_postUrl:
  "scrapePost env sc url st = (Inr post, st') \<Longrightarrow> postUrl post = url"
  by (auto simp: scrapePost_def resolve_def throw_def elim!: await_InrE split: prod.splits if_splits)

lemma scrapeLink_ok:
  "scrapePost env sc link st = (Inr post, s1) \<Longrightarrow>
   \<exists>s2. scrapeLink env sc link ps st = (Inr (ps @ [post]), s2) \<and> console s2 = console s1"
  by (simp add: scrapeLink_def tryCatch_def await_def external_def sleep_def resolve_def
      split: prod.splits)

lemma scrapeLink_fail:
  "scrapePost env sc link st = (Inl e, s1) \<Longrightarrow>
   scrapeLink env sc link ps st =
     (Inr ps,
      s1\<lparr>console := console s1 @
        [ConsoleError [Str (ascii ''Error scraping post '' @ link @ ascii '':''), Thrown e]]\<rparr>)"
  by (simp add: scrapeLink_def tryCatch_def await_def consoleError_def resolve_def)

lemma scrapePost_cases:
  obtains (ok) post s1 where "scrapePost env sc link st = (Inr post, s1)"
  | (fail) e s1 where "scrapePost env sc link st = (Inl e, s1)"
  by (cases "scrapePost env sc link st"; cases "fst (scrapePost env sc link st)") auto

lemma scrapeLinks_subseq:
  "scrapeLinks env sc links ps st = (r, st') \<Longrightarrow>
   \<exists>qs. r = Inr (ps @ qs) \<and> subseq (map postUrl qs) links \<and> length qs \<le> length links"
proof (induction links arbitrary: ps st)
  case Nil
  then show ?case by auto
next
  case (Cons link links)
  show ?case
  proof (cases rule: scrapePost_cases[of env sc link st])
    case (ok post s1)
    from scrapeLink_ok[OF ok, of ps] obtain s2 where
      step: "scrapeLink env sc link ps st = (Inr (ps @ [post]), s2)" by blast
    with Cons.prems have "scrapeLinks env sc links (ps @ [post]) s2 = (r, st')"
      by simp
    from Cons.IH[OF this] obtain qs where qs: "r = Inr ((ps @ [post]) @ qs)"
      "subseq (map postUrl qs) links" "length qs \<le> length links" by blast
    have "postUrl post = link" using ok by (rule scrapePost_postUrl)
    with qs show ?thesis by (intro exI[of _ "post # qs"]) auto
  next
    case (fail e s1)
    note step = scrapeLink_fail[OF fail, of ps]
    with Cons.prems have "scrapeLinks env sc links ps (snd (scrapeLink env sc link ps st)) = (r, st')"
      by simp
    from Cons.IH[OF this] obtain qs where qs: "r = Inr (ps @ qs)"
      "subseq (map postUrl qs) links" "length qs \<le> length links" by blast
    then show ?thesis by (intro exI[of _ qs]) auto
  qed
qed

lemma scrapeLinks_failing_link:
  assumes bad: "\<forall>s. isl (fst (scrapePost env sc bad s))"
    and good: "\<forall>l \<in> set links. l \<noteq> bad \<longrightarrow> (\<forall>s. \<not> isl (fst (scrapePost env sc l s)))"
  shows "\<exists>qs st'. scrapeLinks env sc links ps st = (Inr (ps @ qs), st') \<and>
           map postUrl qs = filter (\<lambda>l. l \<noteq> bad) links \<and>
           prefix (console st) (console st') \<and>
           (bad \<in> set links \<longrightarrow>
              (\<exists>e. errorLine ''Error scraping post '' bad e \<in> set (console st')))"
  using good
proof (induction links arbitrary: ps st)
  case Nil
  show ?case by simp
next
  case (Cons link links)
  from Cons.prems have rest: "\<forall>l \<in> set links. l \<noteq> bad \<longrightarrow> (\<forall>s. \<not> isl (fst (scrapePost env sc l s)))"
    by simp
  show ?case
  proof (cases rule: scrapePost_cases[of env sc link st])
    case (ok post s1)
    then have nb: "link \<noteq> bad" using bad by (metis fst_conv sum.disc(2))
    have c1: "console s1 = console st" using quietD[OF quiet_scrapePost ok] .
    from scrapeLink_ok[OF ok, of ps] obtain s2 where
      step: "scrapeLink env sc link ps st = (Inr (ps @ [post]), s2)" and c2: "console s2 = console s1"
      by blast
    from Cons.IH[OF rest, of "ps @ [post]" s2]
    obtain qs st' where qs:
      "scrapeLinks env sc links (ps @ [post]) s2 = (Inr ((ps @ [post]) @ qs), st')"
      "map postUrl qs = filter (\<lambda>l. l \<noteq> bad) links"
      "prefix (console s2) (console st')"
      "bad \<in> set links \<longrightarrow> (\<exists>e. errorLine ''Error scraping post '' bad e \<in> set (console st'))"
      by blast
    have pu: "postUrl post = link" using ok by (rule scrapePost_postUrl)
    have pre: "prefix (console st) (console st')"
      using qs(3) c1 c2 by simp
    show ?thesis
      apply (rule exI[of _ "post # qs"], rule exI[of _ st'])
      using qs step pu nb pre by simp
  next
    case (fail e s1)
    have c1: "console s1 = console st" using quietD[OF quiet_scrapePost fail] .
    have isbad: "link = bad" using fail Cons.prems by (metis fst_conv list.set_intros(1) sum.disc(1))
    note step = scrapeLink_fail[OF fail, of ps]
    from Cons.IH[OF rest, of ps "snd (scrapeLink env sc link ps st)"]
    obtain qs st' where qs:
      "scrapeLinks env sc links ps (snd (scrapeLink env sc link ps st)) = (Inr (ps @ qs), st')"
      "map postUrl qs = filter (\<lambda>l. l \<noteq> bad) links"
      "prefix (console (snd (scrapeLink env sc link ps st))) (console st')"
      by blast
    from qs(3) have pre2: "prefix (console st @ [errorLine ''Error scraping post '' bad e]) (console st')"
      unfolding step by (simp add: c1 isbad errorLine_def)
    then have pre: "prefix (console st) (console st')"
      by (metis append_prefixD)
    have "errorLine ''Error scraping post '' bad e \<in> set (console st')"
      using set_mono_prefix[OF pre2] by auto
    then show ?thesis
      apply (intro exI[of _ qs] exI[of _ st'])
      using qs step isbad pre by auto
  qed
qed


subsection \<open>What \<open>scrapeUserProfile\<close> returns\<close>

lemma profileHeader_links:
  assumes "profileHeader env sc name st = (Inr (b, fc, fg, links), st1)"
  obtains w w' doc where "page_evaluate env w = (Inr doc, w')" and "links = postLinksScript doc"
  using assms unfolding profileHeader_def
  by (auto simp: resolve_def throw_def elim!: await_InrE retry_evaluate_InrE split: if_splits)

lemma scrapeUserProfile_InrE:
  assumes "scrapeUserProfile env sc name st = (Inr p, st')"
  obtains b fc fg links st1 ps where "page sc \<noteq> None"
    and "profileHeader env sc name st = (Inr (b, fc, fg, links), st1)"
    and "processLinks env sc links [] st1 = (Inr ps, st')"
    and "p = \<lparr>username = name, bio = b, posts = ps, followersCount = fc, followingCount = fg\<rparr>"
proof -
  from assms have pg: "page sc \<noteq> None"
    by (auto simp: scrapeUserProfile_def throw_def split: if_splits)
  with assms have "await (profileHeader env sc name) (\<lambda>(b, fc, fg, postLinks).
              await (processLinks env sc postLinks []) (\<lambda>ps.
              resolve \<lparr>username = name, bio = b, posts = ps,
                       followersCount = fc, followingCount = fg\<rparr>)) st = (Inr p, st')"
    by (auto simp: scrapeUserProfile_def dest: tryCatch_rethrow_InrD)
  then show ?thesis using pg
    by (auto simp: resolve_def elim!: await_InrE split: prod.splits intro: that)
qed

lemma scrapeUserProfile_posts:
  assumes "scrapeUserProfile env sc name st = (Inr p, st')"
  shows "length (posts p) \<le> 4 \<and>
         (\<exists>w w' doc. page_evaluate env w = (Inr doc, w') \<and>
            subseq (map postUrl (posts p)) (take 4 (map href (querySelectorAll doc (ascii ''article a'')))))"
proof -
  from assms obtain b fc fg links st1 ps where
    h: "profileHeader env sc name st = (Inr (b, fc, fg, links), st1)"
    and l: "processLinks env sc links [] st1 = (Inr ps, st')"
    and p: "p = \<lparr>username = name, bio = b, posts = ps, followersCount = fc, followingCount = fg\<rparr>"
    by (rule scrapeUserProfile_InrE)
  from h obtain w w' doc where d: "page_evaluate env w = (Inr doc, w')" "links = postLinksScript doc"
    by (rule profileHeader_links)
  from processLinks_subseq[OF l] have s: "subseq (map postUrl ps) links" "length ps \<le> length links"
    by auto
  have "length links \<le> 4" using d(2) by (simp add: postLinksScript_def)
  with s d p show ?thesis by (auto simp: postLinksScript_def)
qed

lemma scrapeUserProfile_failing_link:
  assumes pg: "page sc \<noteq> None"
    and h: "profileHeader env sc name st = (Inr (b, fc, fg, before @ bad # after), st1)"
    and nb: "bad \<notin> set before" "bad \<notin> set after"
    and bad: "\<forall>s. isl (fst (processPost env sc bad s))"
    and good: "\<forall>l \<in> set (before @ after). \<forall>s. \<not> isl (fst (processPost env sc l s))"
  shows "\<exists>ps st'. scrapeUserProfile env sc name st =
             (Inr \<lparr>username = name, bio = b, posts = ps, followersCount = fc, followingCount = fg\<rparr>, st') \<and>
           map postUrl ps = before @ after \<and>
           length ps + 1 = length (before @ bad # after) \<and>
           (\<exists>e. errorLine ''Error processing post '' bad e \<in> set (console st'))"
proof -
  have g: "\<forall>l \<in> set (before @ bad # after). l \<noteq> bad \<longrightarrow> (\<forall>s. \<not> isl (fst (processPost env sc l s)))"
    using good by auto
  from processLinks_failing_link[OF bad g, of "[]" st1]
  obtain qs st' where qs: "processLinks env sc (before @ bad # after) [] st1 = (Inr qs, st')"
    "map postUrl qs = filter (\<lambda>l. l \<noteq> bad) (before @ bad # after)"
    "\<exists>e. errorLine ''Error processing post '' bad e \<in> set (console st')"
    by auto
  have "filter (\<lambda>l. l \<noteq> bad) before = before" "filter (\<lambda>l. l \<noteq> bad) after = after"
    using nb by (auto simp: filter_id_conv)
  then have f: "filter (\<lambda>l. l \<noteq> bad) (before @ bad # after) = before @ after"
    by simp
  have len: "length qs = length (before @ after)"
    using qs(2) f by (metis length_map)
  have "scrapeUserProfile env sc name st =
      (Inr \<lparr>username = name, bio = b, posts = qs, followersCount = fc, followingCount = fg\<rparr>, st')"
    using pg by (auto simp: scrapeUserProfile_def tryCatch_def await_def h qs(1) resolve_def)
  with qs f len show ?thesis by auto
qed

lemma getPostLinks_InrE:
  assumes "getPostLinks env sc st = (Inr links, st')"
  obtains doc where "page_evaluate env (world st) = (Inr doc, world st')"
    and "links = map href (querySelectorAll doc (ascii ''article a''))"
  using assms
  by (auto simp: getPostLinks_def throw_def split: if_splits elim!: evaluate_InrE)

lemma profileData_InrE:
  assumes "profileData env sc name st = (Inr d, st1)"
  obtains w w' doc where "page_evaluate env w = (Inr doc, w')" and "d = profileScript doc"
  using assms unfolding profileData_def
  by (auto elim!: await_InrE evaluate_InrE)

lemma scrapeUserProfile_part_InrE:
  assumes "scrapeUserProfile_part env sc name st = (Inr p, st')"
  obtains b followers following st1 postLinks st2 ps where "page sc \<noteq> None"
    and "profileData env sc name st = (Inr (b, followers, following), st1)"
    and "getPostLinks env sc st1 = (Inr postLinks, st2)"
    and "scrapeLinks env sc (take 4 postLinks) [] st2 = (Inr ps, st')"
    and "p = \<lparr>username = name, bio = b, posts = ps, followersCount = parseCount followers,
              followingCount = parseCount following\<rparr>"
proof -
  from assms have pg: "page sc \<noteq> None"
    by (auto simp: scrapeUserProfile_part_def throw_def split: if_splits)
  with assms have "await (profileData env sc name) (\<lambda>(b, followers, following).
              await (getPostLinks env sc) (\<lambda>postLinks.
              await (scrapeLinks env sc (take 4 postLinks) []) (\<lambda>ps.
              resolve \<lparr>username = name, bio = b, posts = ps,
                       followersCount = parseCount followers,
                       followingCount = parseCount following\<rparr>))) st = (Inr p, st')"
    by (auto simp: scrapeUserProfile_part_def dest: tryCatch_rethrow_InrD)
  then show ?thesis using pg
    by (auto simp: resolve_def elim!: await_InrE split: prod.splits intro: that)
qed

lemma scrapeUserProfile_part_posts:
  assumes "scrapeUserProfile_part env sc name st = (Inr p, st')"
  shows "length (posts p) \<le> 4 \<and>
         (\<exists>w w' doc. page_evaluate env w = (Inr doc, w') \<and>
            subseq (map postUrl (posts p)) (take 4 (map href (querySelectorAll doc (ascii ''article a'')))))"
proof -
  from assms obtain b followers following st1 postLinks st2 ps where
    g: "getPostLinks env sc st1 = (Inr postLinks, st2)"
    and l: "scrapeLinks env sc (take 4 postLinks) [] st2 = (Inr ps, st')"
    and p: "p = \<lparr>username = name, bio = b, posts = ps, followersCount = parseCount followers,
              followingCount = parseCount following\<rparr>"
    by (rule scrapeUserProfile_part_InrE)
  from g obtain doc where d: "page_evaluate env (world st1) = (Inr doc, world st2)"
    "postLinks = map href (querySelectorAll doc (ascii ''article a''))"
    by (rule getPostLinks_InrE)
  from scrapeLinks_subseq[OF l] have s: "subseq (map postUrl ps) (take 4 postLinks)"
    "length ps \<le> length (take 4 postLinks)"
    by auto
  with d p show ?thesis by auto
qed

lemma scrapeUserProfile_part_counts:
  assumes "scrapeUserProfile_part env sc name st = (Inr p, st')"
  shows "\<exists>w w' doc. page_evaluate env w = (Inr doc, w') \<and>
           followersCount p =
             parseCount (orElse (queryProp doc (ascii ''li:nth-child(2) span span'') innerText) (ascii ''0'')) \<and>
           followingCount p =
             parseCount (orElse (queryProp doc (ascii ''li:nth-child(3) span span'') innerText) (ascii ''0''))"
proof -
  from assms obtain b followers following st1 ps where
    d: "profileData env sc name st = (Inr (b, followers, following), st1)"
    and p: "p = \<lparr>username = name, bio = b, posts = ps, followersCount = parseCount followers,
              followingCount = parseCount following\<rparr>"
    by (rule scrapeUserProfile_part_InrE)
  from d obtain w w' doc where e: "page_evaluate env w = (Inr doc, w')"
    "(b, followers, following) = profileScript doc"
    by (rule profileData_InrE)
  with p show ?thesis by (auto simp: profileScript_def)
qed

lemma scrapeUserProfile_part_failing_link:
  assumes pg: "page sc \<noteq> None"
    and d: "profileData env sc name st = (Inr (b, followers, following), st1)"
    and g: "getPostLinks env sc st1 = (Inr postLinks, st2)"
    and t: "take 4 postLinks = before @ bad # after"
    and nb: "bad \<notin> set before" "bad \<notin> set after"
    and bad: "\<forall>s. isl (fst (scrapePost env sc bad s))"
    and good: "\<forall>l \<in> set (before @ after). \<forall>s. \<not> isl (fst (scrapePost env sc l s))"
  shows "\<exists>ps st'. scrapeUserProfile_part env sc name st =
             (Inr \<lparr>username = name, bio = b, posts = ps, followersCount = parseCount followers,
                    followingCount = parseCount following\<rparr>, st') \<and>
           map postUrl ps = before @ after \<and>
           length ps + 1 = length (before @ bad # after) \<and>
           (\<exists>e. errorLine ''Error scraping post '' bad e \<in> set (console st'))"
proof -
  have gd: "\<forall>l \<in> set (before @ bad # after). l \<noteq> bad \<longrightarrow> (\<forall>s. \<not> isl (fst (scrapePost env sc l s)))"
    using good by auto
  from scrapeLinks_failing_link[OF bad gd, of "[]" st2]
  obtain qs st' where qs: "scrapeLinks env sc (before @ bad # after) [] st2 = (Inr qs, st')"
    "map postUrl qs = filter (\<lambda>l. l \<noteq> bad) (before @ bad # after)"
    "\<exists>e. errorLine ''Error scraping post '' bad e \<in> set (console st')"
    by auto
  have "filter (\<lambda>l. l \<noteq> bad) before = before" "filter (\<lambda>l. l \<noteq> bad) after = after"
    using nb by (auto simp: filter_id_conv)
  then have f: "filter (\<lambda>l. l \<noteq> bad) (before @ bad # after) = before @ after"
    by simp
  have len: "length qs = length (before @ after)"
    using qs(2) f by (metis length_map)
  have "scrapeUserProfile_part env sc name st =
      (Inr \<lparr>username = name, bio = b, posts = qs, followersCount = parseCount followers,
             followingCount = parseCount following\<rparr>, st')"
    using pg by (auto simp: scrapeUserProfile_part_def tryCatch_def await_def d g t qs(1) resolve_def)
  with qs f len show ?thesis by auto
qed


subsection \<open>The profile of \<open>gridEnv\<close>\<close>

lemmas grid_eval =
  gridEnv_def gridDocument_def element0_def launched_def launched_login_def start_def
  await_def tryCatch_def resolve_def throw_def external_def evaluate_def sleep_def
  consoleLog_def consoleError_def retryOperation_def retryTrace_def retryLoop.simps
  queryProp_def dq_def

lemma grid_header:
  "fst (profileHeader gridEnv launched (ascii ''u'') start) =
     Inr ([], Fin 12, Fin 0, [ascii ''/p/1/'', ascii ''/p/2/'', ascii ''/p/3/''])"
  by (simp add: profileHeader_def waitForSelector_def bioScript_def countScript_def
      postLinksScript_def grid_eval count_eval)

lemma grid_processPost_bad: "isl (fst (processPost gridEnv launched (ascii ''/p/2/'') s))"
  by (simp add: processPost_def grid_eval ascii_def)

lemma grid_processPost_good:
  "l \<in> set ([ascii ''/p/1/''] @ [ascii ''/p/3/'']) \<Longrightarrow> \<not> isl (fst (processPost gridEnv launched l s))"
  by (auto simp: processPost_def determinePostType_def postDataScript_def postTypeScript_def
      grid_eval ascii_def)

lemma grid_profileData:
  "fst (profileData gridEnv launched_login (ascii ''u'') start) = Inr ([], ascii ''1.5'', ascii ''0'')"
  by (simp add: profileData_def profileScript_def grid_eval ascii_def)

lemma grid_getPostLinks:
  "fst (getPostLinks gridEnv launched_login s) = Inr [ascii ''/p/1/'', ascii ''/p/2/'', ascii ''/p/3/'']"
  by (simp add: getPostLinks_def grid_eval ascii_def)

lemma grid_scrapePost_bad: "isl (fst (scrapePost gridEnv launched_login (ascii ''/p/2/'') s))"
  by (simp add: scrapePost_def grid_eval ascii_def)

lemma grid_scrapePost_good:
  "l \<in> set ([ascii ''/p/1/''] @ [ascii ''/p/3/'']) \<Longrightarrow> \<not> isl (fst (scrapePost gridEnv launched_login l s))"
  by (auto simp: scrapePost_def determinePostType_part_def postDataScript_part_def
      postTypeScript_part_def grid_eval ascii_def)

lemma grid_scrape:
  "\<exists>ps st'. scrapeUserProfile gridEnv launched (ascii ''u'') start =
      (Inr \<lparr>username = ascii ''u'', bio = [], posts = ps, followersCount = Fin 12,
             followingCount = Fin 0\<rparr>, st') \<and>
     map postUrl ps = [ascii ''/p/1/'', ascii ''/p/3/'']"
proof -
  have h: "profileHeader gridEnv launched (ascii ''u'') start =
      (Inr ([], Fin 12, Fin 0, [ascii ''/p/1/''] @ ascii ''/p/2/'' # [ascii ''/p/3/'']),
       snd (profileHeader gridEnv launched (ascii ''u'') start))"
    using grid_header by (metis append_Cons append_Nil prod.collapse)
  have pg: "page launched \<noteq> None" by (simp add: launched_def)
  have nb: "ascii ''/p/2/'' \<notin> set [ascii ''/p/1/'']" "ascii ''/p/2/'' \<notin> set [ascii ''/p/3/'']"
    by (simp_all add: ascii_def)
  from scrapeUserProfile_failing_link[OF pg h nb] grid_processPost_bad grid_processPost_good
  show ?thesis by fastforce
qed

lemma grid_scrape_part:
  "\<exists>ps st'. scrapeUserProfile_part gridEnv launched_login (ascii ''u'') start =
      (Inr \<lparr>username = ascii ''u'', bio = [], posts = ps, followersCount = parseCount (ascii ''1.5''),
             followingCount = parseCount (ascii ''0'')\<rparr>, st') \<and>
     map postUrl ps = [ascii ''/p/1/'', ascii ''/p/3/'']"
proof -
  have d: "profileData gridEnv launched_login (ascii ''u'') start =
      (Inr ([], ascii ''1.5'', ascii ''0''), snd (profileData gridEnv launched_login (ascii ''u'') start))"
    using grid_profileData by (metis prod.collapse)
  have g: "getPostLinks gridEnv launched_login (snd (profileData gridEnv launched_login (ascii ''u'') start)) =
      (Inr [ascii ''/p/1/'', ascii ''/p/2/'', ascii ''/p/3/''],
       snd (getPostLinks gridEnv launched_login (snd (profileData gridEnv launched_login (ascii ''u'') start))))"
    using grid_getPostLinks by (metis prod.collapse)
  have t: "take 4 [ascii ''/p/1/'', ascii ''/p/2/'', ascii ''/p/3/''] =
      [ascii ''/p/1/''] @ ascii ''/p/2/'' # [ascii ''/p/3/'']"
    by simp
  have pg: "page launched_login \<noteq> None" by (simp add: launched_login_def)
  have nb: "ascii ''/p/2/'' \<notin> set [ascii ''/p/1/'']" "ascii ''/p/2/'' \<notin> set [ascii ''/p/3/'']"
    by (simp_all add: ascii_def)
  from scrapeUserProfile_part_failing_link[OF pg d g t nb] grid_scrapePost_bad grid_scrapePost_good
  show ?thesis by fastforce
qed

subsection \<open>A post that cannot be processed\<close>

text \<open>
  Claim C4. Let the links the loop goes through (in part_000 the first four of the
  links collected) be \<open>before\<close>, then \<open>bad\<close>, then \<open>after\<close>, where processing \<open>bad\<close> fails
  in every state, \<open>bad\<close> occurs once, and processing each other link succeeds in
  every state. Then \<open>scrapeUserProfile\<close> returns a profile and throws nothing; the URLs
  of its posts are \<open>before\<close> followed by \<open>after\<close>, so there is one post fewer than links,
  in the order of the links; and the console holds the error line written for \<open>bad\<close>.
  This holds for index.ts and for part_000.
\<close>

theorem scrapeUserProfile_skips_failing_post:
  "(\<forall>b fc fg st1.
      page sc \<noteq> None \<and>
      profileHeader env sc name st = (Inr (b, fc, fg, before @ bad # after), st1) \<and>
      bad \<notin> set before \<and> bad \<notin> set after \<and>
      (\<forall>s. isl (fst (processPost env sc bad s))) \<and>
      (\<forall>l \<in> set (before @ after). \<forall>s. \<not> isl (fst (processPost env sc l s))) \<longrightarrow>
      (\<exists>ps st'. scrapeUserProfile env sc name st =
           (Inr \<lparr>username = name, bio = b, posts = ps, followersCount = fc,
                  followingCount = fg\<rparr>, st') \<and>
         map postUrl ps = before @ after \<and>
         length ps + 1 = length (before @ bad # after) \<and>
         (\<exists>e. errorLine ''Error processing post '' bad e \<in> set (console st')))) \<and>
   (\<forall>b followers following st1 postLinks st2.
      page sc' \<noteq> None \<and>
      profileData env sc' name st = (Inr (b, followers, following), st1) \<and>
      getPostLinks env sc' st1 = (Inr postLinks, st2) \<and>
      take 4 postLinks = before @ bad # after \<and>
      bad \<notin> set before \<and> bad \<notin> set after \<and>
      (\<forall>s. isl (fst (scrapePost env sc' bad s))) \<and>
      (\<forall>l \<in> set (before @ after). \<forall>s. \<not> isl (fst (scrapePost env sc' l s))) \<longrightarrow>
      (\<exists>ps st'. scrapeUserProfile_part env sc' name st =
           (Inr \<lparr>username = name, bio = b, posts = ps, followersCount = parseCount followers,
                  followingCount = parseCount following\<rparr>, st') \<and>
         map postUrl ps = before @ after \<and>
         length ps + 1 = length (before @ bad # after) \<and>
         (\<exists>e. errorLine ''Error scraping post '' bad e \<in> set (console st'))))"
proof (intro conjI allI impI)
  fix b fc fg st1
  assume "page sc \<noteq> None \<and>
      profileHeader env sc name st = (Inr (b, fc, fg, before @ bad # after), st1) \<and>
      bad \<notin> set before \<and> bad \<notin> set after \<and>
      (\<forall>s. isl (fst (processPost env sc bad s))) \<and>
      (\<forall>l \<in> set (before @ after). \<forall>s. \<not> isl (fst (processPost env sc l s)))"
  then show "\<exists>ps st'. scrapeUserProfile env sc name st =
           (Inr \<lparr>username = name, bio = b, posts = ps, followersCount = fc,
                  followingCount = fg\<rparr>, st') \<and>
         map postUrl ps = before @ after \<and>
         length ps + 1 = length (before @ bad # after) \<and>
         (\<exists>e. errorLine ''Error processing post '' bad e \<in> set (console st'))"
    using scrapeUserProfile_failing_link[of sc env name st b fc fg before bad after st1] by blast
next
  fix b followers following st1 postLinks st2
  assume "page sc' \<noteq> None \<and>
      profileData env sc' name st = (Inr (b, followers, following), st1) \<and>
      getPostLinks env sc' st1 = (Inr postLinks, st2) \<and>
      take 4 postLinks = before @ bad # after \<and>
      bad \<notin> set before \<and> bad \<notin> set after \<and>
      (\<forall>s. isl (fst (scrapePost env sc' bad s))) \<and>
      (\<forall>l \<in> set (before @ after). \<forall>s. \<not> isl (fst (scrapePost env sc' l s)))"
  then show "\<exists>ps st'. scrapeUserProfile_part env sc' name st =
           (Inr \<lparr>username = name, bio = b, posts = ps, followersCount = parseCount followers,
                  followingCount = parseCount following\<rparr>, st') \<and>
         map postUrl ps = before @ after \<and>
         length ps + 1 = length (before @ bad # after) \<and>
         (\<exists>e. errorLine ''Error scraping post '' bad e \<in> set (console st'))"
    using scrapeUserProfile_part_failing_link[of sc' env name st b followers following st1
        postLinks st2 before bad after] by blast
qed

theorem scrapeUserProfile_skips_failing_post_witness:
  "(\<exists>ps st'. scrapeUserProfile gridEnv launched (ascii ''u'') start =
       (Inr \<lparr>username = ascii ''u'', bio = [], posts = ps, followersCount = Fin 12,
              followingCount = Fin 0\<rparr>, st') \<and>
      map postUrl ps = [ascii ''/p/1/''] @ [ascii ''/p/3/''] \<and>
      length ps + 1 = length ([ascii ''/p/1/''] @ ascii ''/p/2/'' # [ascii ''/p/3/''])) \<and>
   (\<exists>ps st'. scrapeUserProfile_part gridEnv launched_login (ascii ''u'') start =
       (Inr \<lparr>username = ascii ''u'', bio = [], posts = ps,
              followersCount = parseCount (ascii ''1.5''),
              followingCount = parseCount (ascii ''0'')\<rparr>, st') \<and>
      map postUrl ps = [ascii ''/p/1/''] @ [ascii ''/p/3/''] \<and>
      length ps + 1 = length ([ascii ''/p/1/''] @ ascii ''/p/2/'' # [ascii ''/p/3/'']))"
proof -
  have h: "profileHeader gridEnv launched (ascii ''u'') start =
      (Inr ([], Fin 12, Fin 0, [ascii ''/p/1/''] @ ascii ''/p/2/'' # [ascii ''/p/3/'']),
       snd (profileHeader gridEnv launched (ascii ''u'') start))"
    using grid_header by (metis append_Cons append_Nil prod.collapse)
  have d: "profileData gridEnv launched_login (ascii ''u'') start =
      (Inr ([], ascii ''1.5'', ascii ''0''), snd (profileData gridEnv launched_login (ascii ''u'') start))"
    using grid_profileData by (metis prod.collapse)
  have g: "getPostLinks gridEnv launched_login (snd (profileData gridEnv launched_login (ascii ''u'') start)) =
      (Inr [ascii ''/p/1/'', ascii ''/p/2/'', ascii ''/p/3/''],
       snd (getPostLinks gridEnv launched_login (snd (profileData gridEnv launched_login (ascii ''u'') start))))"
    using grid_getPostLinks by (metis prod.collapse)
  have t: "take 4 [ascii ''/p/1/'', ascii ''/p/2/'', ascii ''/p/3/''] =
      [ascii ''/p/1/''] @ ascii ''/p/2/'' # [ascii ''/p/3/'']"
    by simp
  have pg: "page launched \<noteq> None" "page launched_login \<noteq> None"
    by (simp_all add: launched_def launched_login_def)
  have nb: "ascii ''/p/2/'' \<notin> set [ascii ''/p/1/'']" "ascii ''/p/2/'' \<notin> set [ascii ''/p/3/'']"
    by (simp_all add: ascii_def)
  note inst = scrapeUserProfile_skips_failing_post[of launched gridEnv "ascii ''u''" start
      "[ascii ''/p/1/'']" "ascii ''/p/2/''" "[ascii ''/p/3/'']" launched_login]
  have a: "\<exists>ps st'. scrapeUserProfile gridEnv launched (ascii ''u'') start =
       (Inr \<lparr>username = ascii ''u'', bio = [], posts = ps, followersCount = Fin 12,
              followingCount = Fin 0\<rparr>, st') \<and>
      map postUrl ps = [ascii ''/p/1/''] @ [ascii ''/p/3/''] \<and>
      length ps + 1 = length ([ascii ''/p/1/''] @ ascii ''/p/2/'' # [ascii ''/p/3/''])"
    using conjunct1[OF inst] pg(1) h nb grid_processPost_bad grid_processPost_good by blast
  have b: "\<exists>ps st'. scrapeUserProfile_part gridEnv launched_login (ascii ''u'') start =
       (Inr \<lparr>username = ascii ''u'', bio = [], posts = ps,
              followersCount = parseCount (ascii ''1.5''),
              followingCount = parseCount (ascii ''0'')\<rparr>, st') \<and>
      map postUrl ps = [ascii ''/p/1/''] @ [ascii ''/p/3/''] \<and>
      length ps + 1 = length ([ascii ''/p/1/''] @ ascii ''/p/2/'' # [ascii ''/p/3/''])"
    using conjunct2[OF inst] pg(2) d g t nb grid_scrapePost_bad grid_scrapePost_good by blast
  from a b show ?thesis by blast
qed

subsection \<open>The sample of posts\<close>

text \<open>
  Claim C6. In every profile that \<open>scrapeUserProfile\<close> returns, in index.ts and in
  part_000, there are at most four posts, and their URLs are, in the same order, among
  the first four links of \<open>article a\<close> in a document the page handed over.
\<close>

theorem scrapeUserProfile_posts_sample:
  "(\<forall>p st'. scrapeUserProfile env sc name st = (Inr p, st') \<longrightarrow>
      length (posts p) \<le> 4 \<and>
      (\<exists>w w' doc. page_evaluate env w = (Inr doc, w') \<and>
         subseq (map postUrl (posts p))
           (take 4 (map href (querySelectorAll doc (ascii ''article a'')))))) \<and>
   (\<forall>p st'. scrapeUserProfile_part env sc' name st = (Inr p, st') \<longrightarrow>
      length (posts p) \<le> 4 \<and>
      (\<exists>w w' doc. page_evaluate env w = (Inr doc, w') \<and>
         subseq (map postUrl (posts p))
           (take 4 (map href (querySelectorAll doc (ascii ''article a''))))))"
  using scrapeUserProfile_posts scrapeUserProfile_part_posts by blast

theorem scrapeUserProfile_posts_sample_witness:
  "(\<exists>p st'. scrapeUserProfile gridEnv launched (ascii ''u'') start = (Inr p, st') \<and>
      length (posts p) \<le> 4) \<and>
   (\<exists>p st'. scrapeUserProfile_part gridEnv launched_login (ascii ''u'') start = (Inr p, st') \<and>
      length (posts p) \<le> 4)"
  using scrapeUserProfile_posts_sample[of gridEnv launched "ascii ''u''" start launched_login]
    grid_scrape grid_scrape_part
  by blast

subsection \<open>The follower counts\<close>

lemma pow10_pos: "0 < pow10 e"
  by (simp add: pow10_def)

lemma parseFloat_no_sign:
  assumes "\<forall>c \<in> set num. isDigitOrDot c"
  shows "\<not> isNegative (parseFloat num)"
proof -
  have ws: "dropWhile isWhiteSpace num = num"
    using assms by (cases num) (auto simp: isDigitOrDot_def isDigit_def isWhiteSpace_def)
  have sg: "signOf num = (False, num)"
    using assms by (cases num) (auto simp: isDigitOrDot_def isDigit_def)
  have ni: "\<not> prefix (ascii ''Infinity'') num"
    using assms by (cases num) (auto simp: isDigitOrDot_def isDigit_def ascii_def)
  have "\<not> isNegative (toDouble ((of_nat a + of_nat b / 10 ^ n) * pow10 e))" for a b :: nat and n e
    by (intro toDouble_nonneg) (simp add: pow10_pos less_imp_le)
  then show ?thesis
    unfolding parseFloat_def ws sg by (simp add: Let_def ni)
qed

lemma multiply_not_negative:
  assumes "\<not> isNegative x" "0 < k"
  shows "\<not> isNegative (multiply x k)"
proof (cases x)
  case (Fin r)
  with assms have "0 \<le> r * k" by simp
  then show ?thesis unfolding Fin multiply.simps by (rule toDouble_nonneg)
qed (use assms in simp_all)

lemma parseCount_not_negative: "\<not> isNegative (parseCount s)"
proof (cases "matchCount (filter (\<lambda>c. c \<noteq> 44) (toLowerCase s))")
  case None
  then show ?thesis by (simp add: parseCount_def)
next
  case (Some a)
  obtain num unit where a: "a = (num, unit)" by (cases a)
  from matchCount_SomeD[OF Some[unfolded a]] have d: "\<forall>c \<in> set num. isDigitOrDot c" by blast
  have u: "unit = None \<or> unit = Some 107 \<or> unit = Some 109 \<or> unit = Some 98"
    using Some[unfolded a] by (auto simp: matchCount_def Let_def split: if_splits list.splits)
  have pf: "\<not> isNegative (parseFloat num)" using d by (rule parseFloat_no_sign)
  have m: "0 < k \<Longrightarrow> \<not> isNegative (multiply (parseFloat num) k)" for k
    using pf by (rule multiply_not_negative)
  from u show ?thesis
    using pf m by (auto simp: parseCount_def Some a multipliers_def)
qed

text \<open>
  Claim C5, as amended. In every profile that \<open>scrapeUserProfile\<close> of part_000 returns,
  the two counts are \<open>parseCount\<close> of the text the page shows in the second and third
  list item (of \<open>0\<close> when there is none): never negative; an integer when the text is
  a whole number with an optional \<open>k\<close>, \<open>m\<close> or \<open>b\<close>, unless the number is too large for
  a double, which gives \<open>Infinity\<close>; the exact product of the number and the factor
  when that is below \<open>2 ^ 53\<close>; and \<open>12.3k\<close> gives 12300.
\<close>

theorem scrapeUserProfile_part_follow_counts:
  assumes "scrapeUserProfile_part env sc name st = (Inr p, st')"
  shows "(\<exists>w w' doc. page_evaluate env w = (Inr doc, w') \<and>
            followersCount p =
              parseCount (orElse (queryProp doc (ascii ''li:nth-child(2) span span'') innerText) (ascii ''0'')) \<and>
            followingCount p =
              parseCount (orElse (queryProp doc (ascii ''li:nth-child(3) span span'') innerText) (ascii ''0''))) \<and>
         \<not> isNegative (followersCount p) \<and> \<not> isNegative (followingCount p) \<and>
         (\<forall>t ds u. ds \<noteq> [] \<and> (\<forall>c \<in> set ds. isDigit c) \<and>
            u \<in> {[], ascii ''k'', ascii ''m'', ascii ''b''} \<and>
            filter (\<lambda>c. c \<noteq> 44) (toLowerCase t) = ds @ u \<longrightarrow>
            (parseCount t = PosInf \<or> isInteger (parseCount t)) \<and>
            (of_nat (digitsValue ds) * unitFactor u < 2 ^ 53 \<longrightarrow>
               parseCount t = Fin (of_nat (digitsValue ds) * unitFactor u))) \<and>
         parseCount (ascii ''12.3k'') = Fin 12300"
proof -
  from scrapeUserProfile_part_counts[OF assms] obtain w w' doc where
    c: "page_evaluate env w = (Inr doc, w')"
    "followersCount p =
       parseCount (orElse (queryProp doc (ascii ''li:nth-child(2) span span'') innerText) (ascii ''0''))"
    "followingCount p =
       parseCount (orElse (queryProp doc (ascii ''li:nth-child(3) span span'') innerText) (ascii ''0''))"
    by blast
  have "\<not> isNegative (followersCount p)" "\<not> isNegative (followingCount p)"
    unfolding c by (rule parseCount_not_negative)+
  moreover have "\<forall>t ds u. ds \<noteq> [] \<and> (\<forall>c \<in> set ds. isDigit c) \<and>
            u \<in> {[], ascii ''k'', ascii ''m'', ascii ''b''} \<and>
            filter (\<lambda>c. c \<noteq> 44) (toLowerCase t) = ds @ u \<longrightarrow>
            (parseCount t = PosInf \<or> isInteger (parseCount t)) \<and>
            (of_nat (digitsValue ds) * unitFactor u < 2 ^ 53 \<longrightarrow>
               parseCount t = Fin (of_nat (digitsValue ds) * unitFactor u))"
    using parseCount_whole parseCount_whole_exact by blast
  ultimately show ?thesis using c parseCount_examples(3) by blast
qed

theorem scrapeUserProfile_part_follow_counts_witness:
  "\<exists>p st'. scrapeUserProfile_part gridEnv launched_login (ascii ''u'') start = (Inr p, st') \<and>
     \<not> isNegative (followersCount p) \<and> \<not> isNegative (followingCount p)"
proof -
  from grid_scrape_part obtain p st' where
    e: "scrapeUserProfile_part gridEnv launched_login (ascii ''u'') start = (Inr p, st')"
    by blast
  from scrapeUserProfile_part_follow_counts[OF e] e show ?thesis by blast
qed

text \<open>
  The claim as stated fails on the profile of \<open>gridEnv\<close>: part_000 returns the follower
  count 1.5, which is no integer, for the text \<open>1.5\<close>; and index.ts, which reads the
  text with \<open>parseInt\<close>, returns 12 for \<open>12.3k\<close>.
\<close>

theorem follow_counts_counterexample:
  "(\<exists>p st'. scrapeUserProfile_part gridEnv launched_login (ascii ''u'') start = (Inr p, st') \<and>
      followersCount p = Fin (3 / 2) \<and> \<not> isInteger (followersCount p)) \<and>
   (\<exists>p st'. scrapeUserProfile gridEnv launched (ascii ''u'') start = (Inr p, st') \<and>
      followersCount p = Fin 12)"
proof -
  from grid_scrape_part obtain ps st' where
    "scrapeUserProfile_part gridEnv launched_login (ascii ''u'') start =
      (Inr \<lparr>username = ascii ''u'', bio = [], posts = ps, followersCount = parseCount (ascii ''1.5''),
             followingCount = parseCount (ascii ''0'')\<rparr>, st')"
    by blast
  then have "scrapeUserProfile_part gridEnv launched_login (ascii ''u'') start =
      (Inr \<lparr>username = ascii ''u'', bio = [], posts = ps, followersCount = parseCount (ascii ''1.5''),
             followingCount = parseCount (ascii ''0'')\<rparr>, st') \<and>
      followersCount \<lparr>username = ascii ''u'', bio = [], posts = ps,
             followersCount = parseCount (ascii ''1.5''),
             followingCount = parseCount (ascii ''0'')\<rparr> = Fin (3 / 2) \<and>
      \<not> isInteger (followersCount \<lparr>username = ascii ''u'', bio = [], posts = ps,
             followersCount = parseCount (ascii ''1.5''),
             followingCount = parseCount (ascii ''0'')\<rparr>)"
    using count_not_integer(1,2) by simp
  then have a: "\<exists>p st'. scrapeUserProfile_part gridEnv launched_login (ascii ''u'') start = (Inr p, st') \<and>
      followersCount p = Fin (3 / 2) \<and> \<not> isInteger (followersCount p)"
    by blast
  from grid_scrape obtain qs st'' where
    "scrapeUserProfile gridEnv launched (ascii ''u'') start =
      (Inr \<lparr>username = ascii ''u'', bio = [], posts = qs, followersCount = Fin 12,
             followingCount = Fin 0\<rparr>, st'')"
    by blast
  then have "scrapeUserProfile gridEnv launched (ascii ''u'') start =
      (Inr \<lparr>username = ascii ''u'', bio = [], posts = qs, followersCount = Fin 12,
             followingCount = Fin 0\<rparr>, st'') \<and>
      followersCount \<lparr>username = ascii ''u'', bio = [], posts = qs, followersCount = Fin 12,
             followingCount = Fin 0\<rparr> = Fin 12"
    by simp
  then have b: "\<exists>p st'. scrapeUserProfile gridEnv launched (ascii ''u'') start = (Inr p, st') \<and>
      followersCount p = Fin 12"
    by blast
  from a b show ?thesis by blast
qed

end
